theory Spec2Isabelle
  imports Main "HOL-Library.AList" "HOL-Library.Multiset"
begin

section \<open>The IP address datastore of the node-local IPAM daemon\<close>

text \<open>
  The embedding follows package \<open>datastore\<close>. A Go map is an association list
  with pairwise distinct keys; a \<open>range\<close> loop visits the list from its head, and
  Go's unspecified iteration order is the freedom to permute the list between two
  operations (relation \<open>reorder\<close> below). Pointers are not aliased in the package
  (every ENI and every address is allocated once, by the call that inserts it), so
  records are held by value. Counters are Go \<open>int\<close>s that count map entries and are
  held as integers; where the pool manager computes with them, the result is taken in
  64 bits (\<open>wrap64\<close> below). An instant is a number of nanoseconds.
\<close>

subsection \<open>Time\<close>

type_synonym Time = int
type_synonym Duration = int

definition Second :: Duration where
  "Second = 1000000000"

definition Minute :: Duration where
  "Minute = 60 * Second"

definition maxDuration :: Duration where
  "maxDuration = 2 ^ 63 - 1"

definition minDuration :: Duration where
  "minDuration = - (2 ^ 63)"

text \<open>\<open>t.Sub(u)\<close> of the Go library: the difference, clamped to the range of a Duration.\<close>

definition time_Sub :: "Time \<Rightarrow> Time \<Rightarrow> Duration" where
  "time_Sub t u =
     (if t - u > maxDuration then maxDuration
      else if t - u < minDuration then minDuration
      else t - u)"

text \<open>The zero value of \<open>time.Time\<close>, 1 January of year 1, counted from the Unix epoch.\<close>

definition zeroTime :: Time where
  "zeroTime = - 62135596800 * Second"

definition minLifeTime :: Duration where
  "minLifeTime = 1 * Minute"

definition addressCoolingPeriod :: Duration where
  "addressCoolingPeriod = 1 * Minute"

subsection \<open>Data\<close>

text \<open>
  The errors of the package, one constructor for each error value or message:
  \<open>DuplicatedENIError\<close> and \<open>DuplicateIPError\<close> for the two constants of that name,
  \<open>UnknownENIError\<close> for "add ENI's IP to datastore: unknown ENI",
  \<open>InconsistentPodIP\<close> for "datastore; invalid pod with multiple IP addresses",
  \<open>NoAvailableIP\<close> for "datastore: no available IP addresses",
  \<open>NoDeletableENI\<close> for "free ENI: no ENI can be deleted at this time", and the
  variables \<open>ErrUnknownPod\<close> and \<open>ErrUnknownPodIP\<close>. \<open>NilPointerPanic\<close> is the panic of
  a field access through the nil result of a map lookup.

  Three fields are renamed, since a record field is a constant of the theory: \<open>id\<close> of
  an ENI is \<open>eni_id\<close>, \<open>total\<close> of the datastore is \<open>total_cnt\<close>, and the fields
  \<open>IP\<close> and \<open>DeviceNumber\<close> of \<open>PodIPInfo\<close> are \<open>pod_IP\<close> and
  \<open>pod_DeviceNumber\<close>.
\<close>

datatype error =
    DuplicatedENIError
  | UnknownENIError
  | DuplicateIPError
  | InconsistentPodIP
  | NoAvailableIP
  | NoDeletableENI
  | ErrUnknownPod
  | ErrUnknownPodIP
  | NilPointerPanic

record AddressInfo =
  Assigned :: bool
  address :: string
  unAssignedTime :: Time

record ENIIPPool =
  createTime :: Time
  lastUnAssignedTime :: Time
  IsPrimary :: bool
  eni_id :: string
  DeviceNumber :: int
  AssignedIPv4Addresses :: int
  IPv4Addresses :: "(string \<times> AddressInfo) list"

record PodKey =
  name :: string
  namespace :: string
  container :: string

record K8SPodInfo =
  Name :: string
  Namespace :: string
  Container :: string
  IP :: string

record PodIPInfo =
  pod_IP :: string
  pod_DeviceNumber :: int

record DataStore =
  total_cnt :: int
  assigned :: int
  eniIPPools :: "(string \<times> ENIIPPool) list"
  podsIP :: "PodKey \<rightharpoonup> PodIPInfo"

definition NewPodKey :: "K8SPodInfo \<Rightarrow> PodKey" where
  "NewPodKey k8sPod =
     \<lparr>name = Name k8sPod, namespace = Namespace k8sPod, container = Container k8sPod\<rparr>"

definition NewDataStore :: DataStore where
  "NewDataStore = \<lparr>total_cnt = 0, assigned = 0, eniIPPools = [], podsIP = Map.empty\<rparr>"

subsection \<open>Registering ENIs and addresses\<close>

definition AddENI :: "Time \<Rightarrow> string \<Rightarrow> int \<Rightarrow> bool \<Rightarrow> DataStore \<Rightarrow> error option \<times> DataStore" where
  "AddENI now eniID deviceNumber isPrimary ds =
     (case map_of (eniIPPools ds) eniID of
        Some _ \<Rightarrow> (Some DuplicatedENIError, ds)
      | None \<Rightarrow>
          (None, ds\<lparr>eniIPPools :=
             AList.update eniID
               \<lparr>createTime = now, lastUnAssignedTime = zeroTime, IsPrimary = isPrimary,
                eni_id = eniID, DeviceNumber = deviceNumber, AssignedIPv4Addresses = 0,
                IPv4Addresses = []\<rparr>
               (eniIPPools ds)\<rparr>))"

definition AddENIIPv4Address :: "string \<Rightarrow> string \<Rightarrow> DataStore \<Rightarrow> error option \<times> DataStore" where
  "AddENIIPv4Address eniID ipv4 ds =
     (case map_of (eniIPPools ds) eniID of
        None \<Rightarrow> (Some UnknownENIError, ds)
      | Some curENI \<Rightarrow>
          (case map_of (IPv4Addresses curENI) ipv4 of
             Some _ \<Rightarrow> (Some DuplicateIPError, ds)
           | None \<Rightarrow>
               (None, ds\<lparr>total_cnt := total_cnt ds + 1,
                  eniIPPools :=
                    AList.update eniID
                      (curENI\<lparr>IPv4Addresses :=
                         AList.update ipv4
                           \<lparr>Assigned = False, address = ipv4, unAssignedTime = zeroTime\<rparr>
                           (IPv4Addresses curENI)\<rparr>)
                      (eniIPPools ds)\<rparr>)))"

subsection \<open>Assigning an address to a pod\<close>

text \<open>
  The inner loop of \<open>assignPodIPv4AddressUnsafe\<close> over the addresses of one ENI.
  A hit gives the addresses after the claim, the claimed address and whether the
  counters are incremented.
\<close>

fun assignAddr :: "string \<Rightarrow> (string \<times> AddressInfo) list
    \<Rightarrow> ((string \<times> AddressInfo) list \<times> string \<times> bool) option" where
  "assignAddr ip [] = None"
| "assignAddr ip ((k, addr) # rest) =
     (if ip = address addr then
        (if \<not> Assigned addr
         then Some ((k, addr\<lparr>Assigned := True\<rparr>) # rest, address addr, True)
         else Some ((k, addr) # rest, address addr, False))
      else if \<not> Assigned addr \<and> ip = []
      then Some ((k, addr\<lparr>Assigned := True\<rparr>) # rest, address addr, True)
      else (case assignAddr ip rest of
              None \<Rightarrow> None
            | Some (rest', r) \<Rightarrow> Some ((k, addr) # rest', r)))"

text \<open>The outer loop over the ENIs: the ENIs after the claim, the address, the device
  number of its ENI and whether the counters were incremented.\<close>

fun assignENI :: "string \<Rightarrow> (string \<times> ENIIPPool) list
    \<Rightarrow> ((string \<times> ENIIPPool) list \<times> string \<times> int \<times> bool) option" where
  "assignENI ip [] = None"
| "assignENI ip ((k, eni) # rest) =
     (if ip = [] \<and> int (length (IPv4Addresses eni)) = AssignedIPv4Addresses eni
      then (case assignENI ip rest of
              None \<Rightarrow> None
            | Some (rest', r) \<Rightarrow> Some ((k, eni) # rest', r))
      else (case assignAddr ip (IPv4Addresses eni) of
              Some (addrs', a, inc) \<Rightarrow>
                Some ((k, eni\<lparr>AssignedIPv4Addresses :=
                               AssignedIPv4Addresses eni + (if inc then 1 else 0),
                             IPv4Addresses := addrs'\<rparr>) # rest,
                      a, DeviceNumber eni, inc)
            | None \<Rightarrow>
                (case assignENI ip rest of
                   None \<Rightarrow> None
                 | Some (rest', r) \<Rightarrow> Some ((k, eni) # rest', r))))"

definition assignPodIPv4AddressUnsafe :: "K8SPodInfo \<Rightarrow> DataStore
    \<Rightarrow> (error + string \<times> int) \<times> DataStore" where
  "assignPodIPv4AddressUnsafe k8sPod ds =
     (case assignENI (IP k8sPod) (eniIPPools ds) of
        Some (enis', a, dev, inc) \<Rightarrow>
          (Inr (a, dev),
           ds\<lparr>assigned := assigned ds + (if inc then 1 else 0),
              eniIPPools := enis',
              podsIP := (podsIP ds)(NewPodKey k8sPod \<mapsto> \<lparr>pod_IP = a, pod_DeviceNumber = dev\<rparr>)\<rparr>)
      | None \<Rightarrow> (Inl NoAvailableIP, ds))"

definition AssignPodIPv4Address :: "K8SPodInfo \<Rightarrow> DataStore
    \<Rightarrow> (error + string \<times> int) \<times> DataStore" where
  "AssignPodIPv4Address k8sPod ds =
     (case podsIP ds (NewPodKey k8sPod) of
        Some ipAddr \<Rightarrow>
          (if pod_IP ipAddr = IP k8sPod \<and> IP k8sPod \<noteq> []
           then (Inr (pod_IP ipAddr, pod_DeviceNumber ipAddr), ds)
           else (Inl InconsistentPodIP, ds))
      | None \<Rightarrow> assignPodIPv4AddressUnsafe k8sPod ds)"

definition GetStats :: "DataStore \<Rightarrow> int \<times> int" where
  "GetStats ds = (total_cnt ds, assigned ds)"

definition GetENIs :: "DataStore \<Rightarrow> int" where
  "GetENIs ds = int (length (eniIPPools ds))"

subsection \<open>Releasing an ENI\<close>

text \<open>The loop of \<open>getDeletableENI\<close>. The clock is read twice for each ENI; the readings of
  one call are taken as one instant \<open>now\<close>.\<close>

fun deletableENI :: "Time \<Rightarrow> (string \<times> ENIIPPool) list \<Rightarrow> ENIIPPool option" where
  "deletableENI now [] = None"
| "deletableENI now ((k, eni) # rest) =
     (if IsPrimary eni then deletableENI now rest
      else if time_Sub now (createTime eni) < minLifeTime then deletableENI now rest
      else if time_Sub now (lastUnAssignedTime eni) < addressCoolingPeriod
      then deletableENI now rest
      else if AssignedIPv4Addresses eni \<noteq> 0 then deletableENI now rest
      else Some eni)"

definition getDeletableENI :: "Time \<Rightarrow> DataStore \<Rightarrow> ENIIPPool option" where
  "getDeletableENI now ds = deletableENI now (eniIPPools ds)"

definition FreeENI :: "Time \<Rightarrow> DataStore \<Rightarrow> (error + string) \<times> DataStore" where
  "FreeENI now ds =
     (case getDeletableENI now ds of
        None \<Rightarrow> (Inl NoDeletableENI, ds)
      | Some del \<Rightarrow>
          (case map_of (eniIPPools ds) (eni_id del) of
             None \<Rightarrow> (Inl NilPointerPanic, ds)
           | Some e \<Rightarrow>
               (Inr (eni_id del),
                ds\<lparr>total_cnt := total_cnt ds - int (length (IPv4Addresses e)),
                   assigned := assigned ds - AssignedIPv4Addresses del,
                   eniIPPools := AList.delete (eni_id del) (eniIPPools ds)\<rparr>)))"

subsection \<open>Releasing a pod's address\<close>

fun unassignENI :: "Time \<Rightarrow> string \<Rightarrow> (string \<times> ENIIPPool) list
    \<Rightarrow> ((string \<times> ENIIPPool) list \<times> string \<times> int) option" where
  "unassignENI now ip [] = None"
| "unassignENI now ip ((k, eni) # rest) =
     (case map_of (IPv4Addresses eni) ip of
        Some a \<Rightarrow>
          (if Assigned a
           then Some ((k, eni\<lparr>lastUnAssignedTime := now,
                              AssignedIPv4Addresses := AssignedIPv4Addresses eni - 1,
                              IPv4Addresses :=
                                AList.update ip (a\<lparr>Assigned := False, unAssignedTime := now\<rparr>)
                                  (IPv4Addresses eni)\<rparr>) # rest,
                      address a, DeviceNumber eni)
           else (case unassignENI now ip rest of
                   None \<Rightarrow> None
                 | Some (rest', r) \<Rightarrow> Some ((k, eni) # rest', r)))
      | None \<Rightarrow>
          (case unassignENI now ip rest of
             None \<Rightarrow> None
           | Some (rest', r) \<Rightarrow> Some ((k, eni) # rest', r)))"

definition UnAssignPodIPv4Address :: "Time \<Rightarrow> K8SPodInfo \<Rightarrow> DataStore
    \<Rightarrow> (error + string \<times> int) \<times> DataStore" where
  "UnAssignPodIPv4Address now k8sPod ds =
     (case podsIP ds (NewPodKey k8sPod) of
        None \<Rightarrow> (Inl ErrUnknownPod, ds)
      | Some ipAddr \<Rightarrow>
          (case unassignENI now (pod_IP ipAddr) (eniIPPools ds) of
             Some (enis', a, dev) \<Rightarrow>
               (Inr (a, dev),
                ds\<lparr>assigned := assigned ds - 1,
                   eniIPPools := enis',
                   podsIP := (podsIP ds)(NewPodKey k8sPod := None)\<rparr>)
           | None \<Rightarrow> (Inl ErrUnknownPodIP, ds)))"

section \<open>The pool manager\<close>

text \<open>
  Package \<open>ipamd\<close>. The cloud client and the host network configurator are outside
  the program: one tick of the manager is run against a record of the answers they
  give, and returns, beside the new manager state, the calls it made to them in order.
\<close>

definition maxRetryCheckENI :: nat where
  "maxRetryCheckENI = 5"

record ENIMetadata =
  ENIID :: string
  MAC :: string
  md_DeviceNumber :: int
  SubnetIPv4CIDR :: string

record NetworkInterfacePrivateIpAddress =
  Primary :: bool
  PrivateIpAddress :: string

text \<open>The answers of the collaborators during one tick: a field for each method of the
  cloud client and of the network configurator that the manager calls (an error is its
  message), \<open>GetAttachedENIs_r n\<close> for the poll number \<open>n\<close>, and the reading of
  the clock.\<close>

record Cloud =
  AllocENI_r :: "string + string"
  AllocAllIPAddress_r :: "string \<Rightarrow> string option"
  GetAttachedENIs_r :: "nat \<Rightarrow> string + ENIMetadata list"
  DescribeENI_r :: "string \<Rightarrow> string + NetworkInterfacePrivateIpAddress list"
  GetPrimaryENI_r :: string
  SetupENINetwork_r :: "string \<Rightarrow> string \<Rightarrow> int \<Rightarrow> string \<Rightarrow> string option"
  Now_r :: Time

datatype call =
    CallAllocENI
  | CallAllocAllIPAddress string
  | CallGetAttachedENIs
  | CallDescribeENI string
  | CallSetupENINetwork string string int string
  | CallFreeENI string

record IPAMD =
  dataStore :: DataStore
  currentMaxAddrsPerENI :: int
  maxAddrsPerENI :: int
  maxENI :: int

text \<open>\<open>strings.Contains\<close> of the Go library.\<close>

fun strings_Contains :: "string \<Rightarrow> string \<Rightarrow> bool" where
  "strings_Contains [] substr = (substr = [])"
| "strings_Contains (c # s) substr =
     (take (length substr) (c # s) = substr \<or> strings_Contains s substr)"

definition isAttachmentLimitExceededError :: "string \<Rightarrow> bool" where
  "isAttachmentLimitExceededError err = strings_Contains err ''AttachmentLimitExceeded''"

text \<open>The message of an error of the datastore, and \<open>errors.Wrapf\<close>, which puts a
  message and a colon before the message of the error it wraps.\<close>

fun error_Error :: "error \<Rightarrow> string" where
  "error_Error DuplicatedENIError = ''data store: duplicate ENI''"
| "error_Error UnknownENIError =
     ''add ENI'' @ [CHR 0x27] @ ''s IP to datastore: unknown ENI''"
| "error_Error DuplicateIPError = ''datastore: duplicated IP''"
| "error_Error InconsistentPodIP = ''datastore; invalid pod with multiple IP addresses''"
| "error_Error NoAvailableIP = ''datastore: no available IP addresses''"
| "error_Error NoDeletableENI = ''free ENI: no ENI can be deleted at this time''"
| "error_Error ErrUnknownPod = ''datastore: unknown pod''"
| "error_Error ErrUnknownPodIP = ''datastore: pod using unknown IP address''"
| "error_Error NilPointerPanic =
     ''runtime error: invalid memory address or nil pointer dereference''"

definition errors_Wrapf :: "string \<Rightarrow> string \<Rightarrow> string" where
  "errors_Wrapf err msg = msg @ '': '' @ err"

text \<open>When no address of the ENI is primary, \<open>getENIaddresses\<close> wraps a nil error,
  which is nil: the caller receives no addresses and no error.\<close>

definition getENIaddresses :: "Cloud \<Rightarrow> string
    \<Rightarrow> string + NetworkInterfacePrivateIpAddress list \<times> string" where
  "getENIaddresses cl eni =
     (case DescribeENI_r cl eni of
        Inl err \<Rightarrow> Inl (errors_Wrapf err (''fail to find eni addresses for eni '' @ eni))
      | Inr ec2Addrs \<Rightarrow>
          (case List.find Primary ec2Addrs of
             Some ec2Addr \<Rightarrow> Inr (ec2Addrs, PrivateIpAddress ec2Addr)
           | None \<Rightarrow> Inr ([], [])))"

fun addENIaddressesToDataStore :: "NetworkInterfacePrivateIpAddress list \<Rightarrow> string
    \<Rightarrow> DataStore \<Rightarrow> DataStore" where
  "addENIaddressesToDataStore [] eni ds = ds"
| "addENIaddressesToDataStore (ec2Addr # rest) eni ds =
     (if Primary ec2Addr then addENIaddressesToDataStore rest eni ds
      else addENIaddressesToDataStore rest eni
             (snd (AddENIIPv4Address eni (PrivateIpAddress ec2Addr) ds)))"

definition setupENI :: "Cloud \<Rightarrow> string \<Rightarrow> ENIMetadata \<Rightarrow> IPAMD
    \<Rightarrow> string option \<times> IPAMD \<times> call list" where
  "setupENI cl eni eniMetadata c =
     (let (err, ds1) =
            AddENI (Now_r cl) eni (md_DeviceNumber eniMetadata) (eni = GetPrimaryENI_r cl)
              (dataStore c)
      in if err \<noteq> None \<and> err \<noteq> Some DuplicatedENIError
         then (Some (errors_Wrapf (case err of Some e \<Rightarrow> error_Error e | None \<Rightarrow> [])
                       (''failed to add eni '' @ eni @ '' to data store'')),
               c\<lparr>dataStore := ds1\<rparr>, [])
         else
           (case getENIaddresses cl eni of
              Inl e \<Rightarrow>
                (Some (errors_Wrapf e (''failed to retrieve eni '' @ eni @ '' ip addresses'')),
                 c\<lparr>dataStore := ds1\<rparr>, [CallDescribeENI eni])
            | Inr (ec2Addrs, eniPrimaryIP) \<Rightarrow>
                (let c1 = c\<lparr>dataStore := ds1,
                            currentMaxAddrsPerENI := int (length ec2Addrs),
                            maxAddrsPerENI :=
                              (if int (length ec2Addrs) > maxAddrsPerENI c
                               then int (length ec2Addrs) else maxAddrsPerENI c)\<rparr>;
                     netErr =
                       (if eni \<noteq> GetPrimaryENI_r cl
                        then SetupENINetwork_r cl eniPrimaryIP (MAC eniMetadata)
                               (md_DeviceNumber eniMetadata) (SubnetIPv4CIDR eniMetadata)
                        else None);
                     netCalls =
                       (if eni \<noteq> GetPrimaryENI_r cl
                        then [CallSetupENINetwork eniPrimaryIP (MAC eniMetadata)
                                (md_DeviceNumber eniMetadata) (SubnetIPv4CIDR eniMetadata)]
                        else [])
                 in (case netErr of
                       Some e \<Rightarrow>
                         (Some (errors_Wrapf e (''failed to setup eni '' @ eni @ '' network'')),
                          c1, CallDescribeENI eni # netCalls)
                     | None \<Rightarrow>
                         (None,
                          c1\<lparr>dataStore := addENIaddressesToDataStore ec2Addrs eni ds1\<rparr>,
                          CallDescribeENI eni # netCalls)))))"

text \<open>The polling loop of \<open>waitENIAttached\<close>; the sleeps between two attempts have no
  effect on the state.\<close>

function waitENIAttached :: "Cloud \<Rightarrow> string \<Rightarrow> nat \<Rightarrow> ENIMetadata option \<times> call list" where
  "waitENIAttached cl eni retry =
     (if retry < maxRetryCheckENI then
        (case GetAttachedENIs_r cl retry of
           Inl err \<Rightarrow>
             (let (r, calls) = waitENIAttached cl eni (retry + 1)
              in (r, CallGetAttachedENIs # calls))
         | Inr enis \<Rightarrow>
             (case List.find (\<lambda>returnedENI. eni = ENIID returnedENI) enis of
                Some returnedENI \<Rightarrow> (Some returnedENI, [CallGetAttachedENIs])
              | None \<Rightarrow>
                  (let (r, calls) = waitENIAttached cl eni (retry + 1)
                   in (r, CallGetAttachedENIs # calls))))
      else (None, []))"
  by pat_completeness auto
termination
  by (relation "measure (\<lambda>(cl, eni, retry). maxRetryCheckENI - retry)") auto

declare waitENIAttached.simps [simp del]

definition increaseIPPool :: "Cloud \<Rightarrow> IPAMD \<Rightarrow> IPAMD \<times> call list" where
  "increaseIPPool cl c =
     (if maxENI c > 0 \<and> maxENI c = GetENIs (dataStore c) then (c, [])
      else
        (case AllocENI_r cl of
           Inl err \<Rightarrow>
             (if isAttachmentLimitExceededError err
              then (c\<lparr>maxENI := GetENIs (dataStore c)\<rparr>, [CallAllocENI])
              else (c, [CallAllocENI]))
         | Inr eni \<Rightarrow>
             (case waitENIAttached cl eni 0 of
                (None, calls) \<Rightarrow> (c, CallAllocENI # CallAllocAllIPAddress eni # calls)
              | (Some eniMetadata, calls) \<Rightarrow>
                  (let (err, c', calls') = setupENI cl eni eniMetadata c
                   in (c', CallAllocENI # CallAllocAllIPAddress eni # calls @ calls')))))"

definition decreaseIPPool :: "Cloud \<Rightarrow> IPAMD \<Rightarrow> IPAMD \<times> call list" where
  "decreaseIPPool cl c =
     (case FreeENI (Now_r cl) (dataStore c) of
        (Inl err, ds') \<Rightarrow> (c\<lparr>dataStore := ds'\<rparr>, [])
      | (Inr eni, ds') \<Rightarrow> (c\<lparr>dataStore := ds'\<rparr>, [CallFreeENI eni]))"

text \<open>The tick, \<open>updateIPPoolIfRequired\<close>: the branch that its two tests select is named
  by \<open>poolAction_of\<close>, so that theorems can say which procedure a tick invokes. The
  call of the metrics has no effect.\<close>

datatype poolAction = Grow | Shrink | Idle

text \<open>Go's \<open>int\<close> has 64 bits on the platforms of the daemon, and its arithmetic wraps
  around: \<open>wrap64 x\<close> is the signed 64-bit value that a result \<open>x\<close> takes. The
  difference and the product of the two tests are computed so.\<close>

definition wrap64 :: "int \<Rightarrow> int" where
  "wrap64 x = (x + 2 ^ 63) mod 2 ^ 64 - 2 ^ 63"

definition poolAction_of :: "IPAMD \<Rightarrow> poolAction" where
  "poolAction_of c =
     (let (total_ips, used) = GetStats (dataStore c)
      in if wrap64 (total_ips - used) \<le> currentMaxAddrsPerENI c then Grow
         else if wrap64 (total_ips - used) > wrap64 (2 * currentMaxAddrsPerENI c) then Shrink
         else Idle)"

definition updateIPPoolIfRequired :: "Cloud \<Rightarrow> IPAMD \<Rightarrow> IPAMD \<times> call list" where
  "updateIPPoolIfRequired cl c =
     (case poolAction_of c of
        Grow \<Rightarrow> increaseIPPool cl c
      | Shrink \<Rightarrow> decreaseIPPool cl c
      | Idle \<Rightarrow> (c, []))"

section \<open>States of the datastore\<close>

subsection \<open>The representation of the Go maps\<close>

text \<open>
  Keys of a Go map are pairwise distinct. \<open>AddENI\<close> is the only place that creates an ENI
  record and stores the key in its \<open>id\<close>; \<open>AddENIIPv4Address\<close> is the only place that
  creates an address and stores the key in its \<open>address\<close>. \<open>wf_ds\<close> says so; it holds
  in every reachable state (lemma \<open>reachable_wf_counters\<close>).
\<close>

definition wf_addrs :: "(string \<times> AddressInfo) list \<Rightarrow> bool" where
  "wf_addrs as = (distinct (map fst as) \<and> list_all (\<lambda>(ip, a). address a = ip) as)"

definition wf_eni :: "string \<times> ENIIPPool \<Rightarrow> bool" where
  "wf_eni = (\<lambda>(k, e). eni_id e = k \<and> wf_addrs (IPv4Addresses e))"

definition wf_enis :: "(string \<times> ENIIPPool) list \<Rightarrow> bool" where
  "wf_enis es = (distinct (map fst es) \<and> list_all wf_eni es)"

definition wf_ds :: "DataStore \<Rightarrow> bool" where
  "wf_ds ds = (distinct (map fst (eniIPPools ds)) \<and> list_all wf_eni (eniIPPools ds))"

subsection \<open>Counters recomputed from scratch\<close>

definition assignedOn :: "ENIIPPool \<Rightarrow> int" where
  "assignedOn e = int (length (filter (\<lambda>(ip, a). Assigned a) (IPv4Addresses e)))"

definition counted :: "string \<times> ENIIPPool \<Rightarrow> bool" where
  "counted = (\<lambda>(k, e). AssignedIPv4Addresses e = assignedOn e)"

definition sumAssigned :: "(string \<times> ENIIPPool) list \<Rightarrow> int" where
  "sumAssigned es = (\<Sum>(k, e)\<leftarrow>es. AssignedIPv4Addresses e)"

definition sumAddresses :: "(string \<times> ENIIPPool) list \<Rightarrow> int" where
  "sumAddresses es = (\<Sum>(k, e)\<leftarrow>es. int (length (IPv4Addresses e)))"

definition counters_ok :: "DataStore \<Rightarrow> bool" where
  "counters_ok ds =
     (list_all counted (eniIPPools ds) \<and>
      assigned ds = sumAssigned (eniIPPools ds) \<and>
      total_cnt ds = sumAddresses (eniIPPools ds))"

subsection \<open>What the loops test and do at one entry\<close>

text \<open>An address that the inner loop of assign passes without claiming it.\<close>

definition passed :: "string \<Rightarrow> AddressInfo \<Rightarrow> bool" where
  "passed ip y = (ip \<noteq> address y \<and> (Assigned y \<or> ip \<noteq> []))"

definition eniFull :: "ENIIPPool \<Rightarrow> bool" where
  "eniFull e = (int (length (IPv4Addresses e)) = AssignedIPv4Addresses e)"

text \<open>An ENI that the outer loop of assign leaves without a claim.\<close>

definition skipped :: "string \<Rightarrow> ENIIPPool \<Rightarrow> bool" where
  "skipped ip e = ((ip = [] \<and> eniFull e) \<or> assignAddr ip (IPv4Addresses e) = None)"

definition claimOn :: "ENIIPPool \<Rightarrow> (string \<times> AddressInfo) list \<Rightarrow> bool \<Rightarrow> ENIIPPool" where
  "claimOn e as' inc =
     e\<lparr>AssignedIPv4Addresses := AssignedIPv4Addresses e + (if inc then 1 else 0),
       IPv4Addresses := as'\<rparr>"

text \<open>The test of the release loop: the ENI has the address, and it is assigned.\<close>

definition holdsAssigned :: "string \<Rightarrow> ENIIPPool \<Rightarrow> bool" where
  "holdsAssigned ip e =
     (case map_of (IPv4Addresses e) ip of Some a \<Rightarrow> Assigned a | None \<Rightarrow> False)"

definition releaseOn :: "Time \<Rightarrow> string \<Rightarrow> AddressInfo \<Rightarrow> ENIIPPool \<Rightarrow> ENIIPPool" where
  "releaseOn now ip a e =
     e\<lparr>lastUnAssignedTime := now,
       AssignedIPv4Addresses := AssignedIPv4Addresses e - 1,
       IPv4Addresses :=
         AList.update ip (a\<lparr>Assigned := False, unAssignedTime := now\<rparr>) (IPv4Addresses e)\<rparr>"

text \<open>The four tests of \<open>getDeletableENI\<close>, with the differences of instants written
  as plain subtractions (lemma \<open>deletableENI_step\<close> relates them to \<open>time_Sub\<close>).\<close>

definition deletable :: "Time \<Rightarrow> ENIIPPool \<Rightarrow> bool" where
  "deletable now e =
     (\<not> IsPrimary e \<and> \<not> now - createTime e < 60 * Second \<and>
      \<not> now - lastUnAssignedTime e < 60 * Second \<and> AssignedIPv4Addresses e = 0)"

subsection \<open>Iteration order and reachable states\<close>

text \<open>
  Two states that hold the same maps and differ in the order in which a \<open>range\<close> loop
  will visit them: the ENIs are permuted, or the addresses of one ENI are.
\<close>

inductive reorder :: "DataStore \<Rightarrow> DataStore \<Rightarrow> bool" where
  enis: "mset enis' = mset (eniIPPools ds) \<Longrightarrow> reorder ds (ds\<lparr>eniIPPools := enis'\<rparr>)"
| addrs: "eniIPPools ds = pre @ (k, e) # post \<Longrightarrow> mset as' = mset (IPv4Addresses e) \<Longrightarrow>
     reorder ds (ds\<lparr>eniIPPools := pre @ (k, e\<lparr>IPv4Addresses := as'\<rparr>) # post\<rparr>)"

text \<open>Every state that a finite sequence of calls, failed ones included, leads to from
  the empty datastore, under any iteration order.\<close>

inductive reachable :: "DataStore \<Rightarrow> bool" where
  new: "reachable NewDataStore"
| add_eni: "reachable ds \<Longrightarrow> reachable (snd (AddENI now eniID deviceNumber isPrimary ds))"
| add_ip: "reachable ds \<Longrightarrow> reachable (snd (AddENIIPv4Address eniID ipv4 ds))"
| assign: "reachable ds \<Longrightarrow> reachable (snd (AssignPodIPv4Address k8sPod ds))"
| unassign: "reachable ds \<Longrightarrow> reachable (snd (UnAssignPodIPv4Address now k8sPod ds))"
| free_eni: "reachable ds \<Longrightarrow> reachable (snd (FreeENI now ds))"
| reorder: "reachable ds \<Longrightarrow> reorder ds ds' \<Longrightarrow> reachable ds'"

subsection \<open>The statement about pod bindings\<close>

text \<open>The ENIs that hold an address with a given IP; a binding is in order when exactly
  one ENI holds its IP and holds it assigned.\<close>

definition holdsIP :: "string \<Rightarrow> ENIIPPool \<Rightarrow> bool" where
  "holdsIP ip e = (map_of (IPv4Addresses e) ip \<noteq> None)"

definition holders :: "string \<Rightarrow> (string \<times> ENIIPPool) list \<Rightarrow> (string \<times> ENIIPPool) list" where
  "holders ip es = filter (\<lambda>(k, e). holdsIP ip e) es"

definition binding_ok :: "(string \<times> ENIIPPool) list \<Rightarrow> string \<Rightarrow> bool" where
  "binding_ok es ip = (case holders ip es of [(k, e)] \<Rightarrow> holdsAssigned ip e | _ \<Rightarrow> False)"

text \<open>
  The states reached when the callers keep to two rules that the datastore itself does
  not enforce: an IP is registered only when it is not empty and no ENI holds it yet,
  and a pod key without a binding asks for a requested-ip that is not empty only while
  no ENI holds that IP assigned. The other calls are free, failed ones included.
\<close>

inductive reachable_unique :: "DataStore \<Rightarrow> bool" where
  new: "reachable_unique NewDataStore"
| add_eni: "reachable_unique ds \<Longrightarrow>
     reachable_unique (snd (AddENI now eniID deviceNumber isPrimary ds))"
| add_ip: "reachable_unique ds \<Longrightarrow> ipv4 \<noteq> [] \<Longrightarrow>
     \<not> list_ex (holdsIP ipv4) (map snd (eniIPPools ds)) \<Longrightarrow>
     reachable_unique (snd (AddENIIPv4Address eniID ipv4 ds))"
| assign: "reachable_unique ds \<Longrightarrow>
     IP k8sPod = [] \<or> podsIP ds (NewPodKey k8sPod) \<noteq> None \<or>
     \<not> list_ex (holdsAssigned (IP k8sPod)) (map snd (eniIPPools ds)) \<Longrightarrow>
     reachable_unique (snd (AssignPodIPv4Address k8sPod ds))"
| unassign: "reachable_unique ds \<Longrightarrow>
     reachable_unique (snd (UnAssignPodIPv4Address now k8sPod ds))"
| free_eni: "reachable_unique ds \<Longrightarrow> reachable_unique (snd (FreeENI now ds))"
| reorder: "reachable_unique ds \<Longrightarrow> reorder ds ds' \<Longrightarrow> reachable_unique ds'"

text \<open>The keys of the ENIs on which a test holds, and the invariant of the states above:
  an IP has at most one owner, no address is the empty string, every binding's IP is held
  assigned, and no two pod keys are bound to one IP.\<close>

definition keysWhere :: "(ENIIPPool \<Rightarrow> bool) \<Rightarrow> (string \<times> ENIIPPool) list \<Rightarrow> string set" where
  "keysWhere P es = fst ` {x \<in> set es. P (snd x)}"

definition unique_ips :: "(string \<times> ENIIPPool) list \<Rightarrow> bool" where
  "unique_ips es = (\<forall>ip. \<forall>k\<in>keysWhere (holdsIP ip) es. \<forall>k'\<in>keysWhere (holdsIP ip) es. k = k')"

definition no_empty_ip :: "(string \<times> ENIIPPool) list \<Rightarrow> bool" where
  "no_empty_ip es = (keysWhere (holdsIP []) es = {})"

definition bindings_held :: "DataStore \<Rightarrow> bool" where
  "bindings_held ds =
     (\<forall>q b. podsIP ds q = Some b \<longrightarrow> keysWhere (holdsAssigned (pod_IP b)) (eniIPPools ds) \<noteq> {})"

definition bindings_inj :: "(PodKey \<rightharpoonup> PodIPInfo) \<Rightarrow> bool" where
  "bindings_inj m =
     (\<forall>q q' b b'. m q = Some b \<and> m q' = Some b' \<and> pod_IP b = pod_IP b' \<longrightarrow> q = q')"

definition unique_inv :: "DataStore \<Rightarrow> bool" where
  "unique_inv ds =
     (wf_ds ds \<and> counters_ok ds \<and> unique_ips (eniIPPools ds) \<and> no_empty_ip (eniIPPools ds) \<and>
      bindings_held ds \<and> bindings_inj (podsIP ds))"

subsection \<open>Runs of assigns and of releases\<close>

text \<open>A run of successful assigns, one per pod of the list, and a run of successful
  releases, under any iteration order between two calls.\<close>

inductive assign_run :: "DataStore \<Rightarrow> K8SPodInfo list \<Rightarrow> DataStore \<Rightarrow> bool" where
  stop: "assign_run ds [] ds"
| step: "AssignPodIPv4Address k8sPod ds = (Inr r, ds1) \<Longrightarrow> assign_run ds1 pods ds2 \<Longrightarrow>
     assign_run ds (k8sPod # pods) ds2"
| shuffle: "reorder ds ds1 \<Longrightarrow> assign_run ds1 pods ds2 \<Longrightarrow> assign_run ds pods ds2"

inductive release_run :: "DataStore \<Rightarrow> K8SPodInfo list \<Rightarrow> DataStore \<Rightarrow> bool" where
  stop: "release_run ds [] ds"
| step: "UnAssignPodIPv4Address now k8sPod ds = (Inr r, ds1) \<Longrightarrow> release_run ds1 pods ds2 \<Longrightarrow>
     release_run ds (k8sPod # pods) ds2"
| shuffle: "reorder ds ds1 \<Longrightarrow> release_run ds1 pods ds2 \<Longrightarrow> release_run ds pods ds2"

subsection \<open>Scenarios\<close>

text \<open>The pod and the single-ENI, single-address pool of scenario S1, before and after
  the pod is given its address; the lone secondary ENI of scenario S4.\<close>

definition pod_p :: K8SPodInfo where
  "pod_p = \<lparr>Name = ''p'', Namespace = ''d'', Container = ''c'', IP = []\<rparr>"

definition s1_pool :: DataStore where
  "s1_pool =
     snd (AddENIIPv4Address ''eni-a'' ''10.0.0.5'' (snd (AddENI 0 ''eni-a'' 1 True NewDataStore)))"

definition s1_bound :: DataStore where
  "s1_bound = snd (AssignPodIPv4Address pod_p s1_pool)"

definition s4_pool :: DataStore where
  "s4_pool = snd (AddENI 0 ''eni-b'' 2 False NewDataStore)"

text \<open>A manager whose last ENI had 14 addresses, over given counters (scenario S6); a
  manager over the pool of S1; a cloud that refuses to attach another ENI.\<close>

definition manager_14 :: "int \<Rightarrow> int \<Rightarrow> IPAMD" where
  "manager_14 t u =
     \<lparr>dataStore = NewDataStore\<lparr>total_cnt := t, assigned := u\<rparr>,
      currentMaxAddrsPerENI = 14, maxAddrsPerENI = 14, maxENI = 0\<rparr>"

definition manager_s1 :: IPAMD where
  "manager_s1 =
     \<lparr>dataStore = s1_pool, currentMaxAddrsPerENI = 1, maxAddrsPerENI = 1, maxENI = 0\<rparr>"

definition cloud_limit :: Cloud where
  "cloud_limit =
     \<lparr>AllocENI_r = Inl ''AttachmentLimitExceeded: Interface count 4 exceeds the limit'',
      AllocAllIPAddress_r = (\<lambda>eni. None),
      GetAttachedENIs_r = (\<lambda>retry. Inr []),
      DescribeENI_r = (\<lambda>eni. Inr []),
      GetPrimaryENI_r = ''eni-a'',
      SetupENINetwork_r = (\<lambda>ip mac dev cidr. None),
      Now_r = 0\<rparr>"

text \<open>Scenario S1 after the release at instant 7; a second pod that asks for the address
  of the first; a pool in which two ENIs were given the same address, the one on
  \<open>eni-b\<close> assigned to the pod of S1.\<close>

definition s1_released :: DataStore where
  "s1_released = snd (UnAssignPodIPv4Address 7 pod_p s1_bound)"

definition pod_q :: K8SPodInfo where
  "pod_q = \<lparr>Name = ''q'', Namespace = ''d'', Container = [], IP = ''10.0.0.5''\<rparr>"

definition dup_pool :: DataStore where
  "dup_pool =
     snd (AddENIIPv4Address ''eni-a'' ''10.0.0.5''
       (snd (AssignPodIPv4Address pod_p
         (snd (AddENIIPv4Address ''eni-b'' ''10.0.0.5''
           (snd (AddENI 0 ''eni-b'' 2 False
             (snd (AddENI 0 ''eni-a'' 1 True NewDataStore)))))))))"

text \<open>A primary ENI with one address, given to the pod of S1, beside a secondary ENI
  with two free addresses; and a manager whose last ENI had \<open>2 ^ 62\<close> addresses,
  over given counters.\<close>

definition two_eni_pool :: DataStore where
  "two_eni_pool =
     snd (AssignPodIPv4Address pod_p
       (snd (AddENIIPv4Address ''eni-b'' ''10.0.1.6''
         (snd (AddENIIPv4Address ''eni-b'' ''10.0.1.5''
           (snd (AddENI 0 ''eni-b'' 2 False s1_pool)))))))"

definition two_eni_freed :: DataStore where
  "two_eni_freed = snd (FreeENI (65 * Second) two_eni_pool)"

definition manager_wide :: "int \<Rightarrow> int \<Rightarrow> IPAMD" where
  "manager_wide t u =
     \<lparr>dataStore = NewDataStore\<lparr>total_cnt := t, assigned := u\<rparr>,
      currentMaxAddrsPerENI = 2 ^ 62, maxAddrsPerENI = 2 ^ 62, maxENI = 0\<rparr>"

text \<open>Scenario S1 after a second pod was bound to the address and the first pod
  released it.\<close>

definition orphan_pool :: DataStore where
  "orphan_pool =
     snd (UnAssignPodIPv4Address 7 pod_p (snd (AssignPodIPv4Address pod_q s1_bound)))"

section \<open>Lemmas about the loops\<close>

lemma map_of_split:
  "map_of xs k = Some v \<Longrightarrow> \<exists>pre post. xs = pre @ (k, v) # post \<and> k \<notin> fst ` set pre"
proof (induction xs)
  case Nil then show ?case by simp
next
  case (Cons x xs)
  show ?case
  proof (cases "fst x = k")
    case True
    with Cons.prems have "x = (k, v)" by (cases x) auto
    then have "x # xs = [] @ (k, v) # xs \<and> k \<notin> fst ` set []" by simp
    then show ?thesis by blast
  next
    case False
    with Cons.prems have "map_of xs k = Some v" by (cases x) auto
    from Cons.IH [OF this] obtain pre post where "xs = pre @ (k, v) # post" "k \<notin> fst ` set pre" by blast
    with False have "x # xs = (x # pre) @ (k, v) # post \<and> k \<notin> fst ` set (x # pre)" by auto
    then show ?thesis by blast
  qed
qed

lemma update_split: "k \<notin> fst ` set pre \<Longrightarrow> AList.update k v (pre @ (k, w) # post) = pre @ (k, v) # post"
  by (induction pre) auto

lemma update_fresh: "map_of xs k = None \<Longrightarrow> AList.update k v xs = xs @ [(k, v)]"
  by (induction xs) (auto split: if_splits)

lemma delete_split: "k \<notin> fst ` set pre \<Longrightarrow> k \<notin> fst ` set post \<Longrightarrow> AList.delete k (pre @ (k, w) # post) = pre @ post"
  by (induction pre) (force simp: AList.delete_eq filter_id_conv)+

lemma map_of_mid: "k \<notin> fst ` set pre \<Longrightarrow> map_of (pre @ (k, e) # post) k = Some e"
  by (induction pre) auto

lemma Assigned_idem: "Assigned x \<Longrightarrow> x\<lparr>Assigned := True\<rparr> = x"
  by (cases x) simp

lemma assignAddr_hit:
  "ip = address addr \<or> (\<not> Assigned addr \<and> ip = []) \<Longrightarrow>
   assignAddr ip ((k, addr) # rest) = Some ((k, addr\<lparr>Assigned := True\<rparr>) # rest, address addr, \<not> Assigned addr)"
  by (auto simp: Assigned_idem)

lemma assignAddr_miss:
  "passed ip addr \<Longrightarrow>
   assignAddr ip ((k, addr) # rest) = map_option (\<lambda>(rest', r). ((k, addr) # rest', r)) (assignAddr ip rest)"
  by (auto simp: passed_def split: option.splits)

lemma assignAddr_split:
  "assignAddr ip as = Some (as', a, inc) \<Longrightarrow>
   \<exists>pre k x post. as = pre @ (k, x) # post \<and> as' = pre @ (k, x\<lparr>Assigned := True\<rparr>) # post \<and>
     a = address x \<and> inc = (\<not> Assigned x) \<and> (ip = address x \<or> ip = [] \<and> \<not> Assigned x) \<and>
     list_all (passed ip) (map snd pre)"
proof (induction as arbitrary: as')
  case Nil then show ?case by simp
next
  case (Cons p rest)
  obtain k addr where p: "p = (k, addr)" by (cases p)
  show ?case
  proof (cases "ip = address addr \<or> (\<not> Assigned addr \<and> ip = [])")
    case True
    from Cons.prems have "as' = (k, addr\<lparr>Assigned := True\<rparr>) # rest" "a = address addr" "inc = (\<not> Assigned addr)"
      unfolding p assignAddr_hit [OF True] by simp_all
    with p have "p # rest = [] @ (k, addr) # rest \<and> as' = [] @ (k, addr\<lparr>Assigned := True\<rparr>) # rest \<and>
     a = address addr \<and> inc = (\<not> Assigned addr) \<and>
     list_all (passed ip) (map snd [])"
      by simp
    moreover from True have "ip = address addr \<or> ip = [] \<and> \<not> Assigned addr" by blast
    ultimately have "p # rest = [] @ (k, addr) # rest \<and> as' = [] @ (k, addr\<lparr>Assigned := True\<rparr>) # rest \<and>
     a = address addr \<and> inc = (\<not> Assigned addr) \<and> (ip = address addr \<or> ip = [] \<and> \<not> Assigned addr) \<and>
     list_all (passed ip) (map snd [])" by blast
    then show ?thesis by blast
  next
    case False
    then have pa: "passed ip addr" by (auto simp: passed_def)
    from Cons.prems obtain rest' where r: "assignAddr ip rest = Some (rest', a, inc)" and as': "as' = (k, addr) # rest'"
      unfolding p assignAddr_miss [OF pa] by auto
    from Cons.IH [OF r] obtain pre k' x post where
      h: "rest = pre @ (k', x) # post" "rest' = pre @ (k', x\<lparr>Assigned := True\<rparr>) # post"
       "a = address x" "inc = (\<not> Assigned x)" "(ip = address x \<or> ip = [] \<and> \<not> Assigned x)"
       "list_all (passed ip) (map snd pre)" by blast
    have "p # rest = ((k, addr) # pre) @ (k', x) # post \<and> as' = ((k, addr) # pre) @ (k', x\<lparr>Assigned := True\<rparr>) # post \<and>
     a = address x \<and> inc = (\<not> Assigned x) \<and> (ip = address x \<or> ip = [] \<and> \<not> Assigned x) \<and>
     list_all (passed ip) (map snd ((k, addr) # pre))"
      using h pa as' p by simp
    then show ?thesis by blast
  qed
qed

lemma assignENI_skip:
  "skipped ip eni \<Longrightarrow>
   assignENI ip ((k, eni) # rest) = map_option (\<lambda>(rest', r). ((k, eni) # rest', r)) (assignENI ip rest)"
  by (auto simp: skipped_def eniFull_def split: option.splits)

lemma assignENI_hit:
  "\<not> (ip = [] \<and> eniFull eni) \<Longrightarrow> assignAddr ip (IPv4Addresses eni) = Some (as', a, inc) \<Longrightarrow>
   assignENI ip ((k, eni) # rest) = Some ((k, claimOn eni as' inc) # rest, a, DeviceNumber eni, inc)"
  by (auto simp: eniFull_def claimOn_def)

lemma assignENI_split:
  "assignENI ip es = Some (es', a, dev, inc) \<Longrightarrow>
   \<exists>pre k e post as'. es = pre @ (k, e) # post \<and>
     assignAddr ip (IPv4Addresses e) = Some (as', a, inc) \<and>
     es' = pre @ (k, claimOn e as' inc) # post \<and>
     dev = DeviceNumber e \<and> \<not> (ip = [] \<and> eniFull e) \<and>
     list_all (skipped ip) (map snd pre)"
proof (induction es arbitrary: es')
  case Nil then show ?case by simp
next
  case (Cons p rest)
  obtain k eni where p: "p = (k, eni)" by (cases p)
  show ?case
  proof (cases "skipped ip eni")
    case True
    from Cons.prems obtain rest' where r: "assignENI ip rest = Some (rest', a, dev, inc)"
      and es': "es' = (k, eni) # rest'"
      unfolding p assignENI_skip [OF True] by auto
    from Cons.IH [OF r] obtain pre k' e post as' where
      h: "rest = pre @ (k', e) # post" "assignAddr ip (IPv4Addresses e) = Some (as', a, inc)"
       "rest' = pre @ (k', claimOn e as' inc) # post"
       "dev = DeviceNumber e" "\<not> (ip = [] \<and> eniFull e)"
       "list_all (skipped ip) (map snd pre)"
      by blast
    have "p # rest = ((k, eni) # pre) @ (k', e) # post \<and>
      assignAddr ip (IPv4Addresses e) = Some (as', a, inc) \<and>
      es' = ((k, eni) # pre) @ (k', claimOn e as' inc) # post \<and>
      dev = DeviceNumber e \<and> \<not> (ip = [] \<and> eniFull e) \<and>
      list_all (skipped ip) (map snd ((k, eni) # pre))"
      using h True es' p by simp
    then show ?thesis by blast
  next
    case False
    then have nf: "\<not> (ip = [] \<and> eniFull eni)"
      and "assignAddr ip (IPv4Addresses eni) \<noteq> None"
      by (auto simp: skipped_def)
    then obtain as' a' inc' where hit: "assignAddr ip (IPv4Addresses eni) = Some (as', a', inc')"
      by (cases "assignAddr ip (IPv4Addresses eni)") auto
    from Cons.prems have "es' = (k, claimOn eni as' inc') # rest" "a = a'" "dev = DeviceNumber eni" "inc = inc'"
      unfolding p assignENI_hit [OF nf hit] by auto
    with hit nf p have "p # rest = [] @ (k, eni) # rest \<and>
      assignAddr ip (IPv4Addresses eni) = Some (as', a, inc) \<and>
      es' = [] @ (k, claimOn eni as' inc) # rest \<and>
      dev = DeviceNumber eni \<and> \<not> (ip = [] \<and> eniFull eni) \<and>
      list_all (skipped ip) (map snd [])"
      by simp
    then show ?thesis by blast
  qed
qed

lemma unassignENI_miss:
  "\<not> holdsAssigned ip eni \<Longrightarrow>
   unassignENI now ip ((k, eni) # rest) = map_option (\<lambda>(rest', r). ((k, eni) # rest', r)) (unassignENI now ip rest)"
  by (auto simp: holdsAssigned_def split: option.splits)

lemma unassignENI_hit:
  "map_of (IPv4Addresses eni) ip = Some a \<Longrightarrow> Assigned a \<Longrightarrow>
   unassignENI now ip ((k, eni) # rest) = Some ((k, releaseOn now ip a eni) # rest, address a, DeviceNumber eni)"
  by (simp add: releaseOn_def)

lemma unassignENI_first:
  "es = pre @ (k, e) # post \<Longrightarrow> list_all (\<lambda>e'. \<not> holdsAssigned ip e') (map snd pre) \<Longrightarrow>
   map_of (IPv4Addresses e) ip = Some a \<Longrightarrow> Assigned a \<Longrightarrow>
   unassignENI now ip es = Some (pre @ (k, releaseOn now ip a e) # post, address a, DeviceNumber e)"
proof (induction pre arbitrary: es)
  case Nil
  then show ?case by (simp add: unassignENI_hit del: unassignENI.simps)
next
  case (Cons p pre)
  obtain k' e' where p: "p = (k', e')" by (cases p)
  from Cons.prems(2) p have m: "\<not> holdsAssigned ip e'" and r: "list_all (\<lambda>e'. \<not> holdsAssigned ip e') (map snd pre)"
    by simp_all
  from Cons.IH [OF refl r Cons.prems(3,4)] show ?case
    unfolding Cons.prems(1) p by (simp add: unassignENI_miss [OF m] del: unassignENI.simps)
qed

lemma first_holder:
  "list_ex P xs \<Longrightarrow> \<exists>pre x post. xs = pre @ x # post \<and> P x \<and> list_all (\<lambda>y. \<not> P y) pre"
proof (induction xs)
  case Nil then show ?case by simp
next
  case (Cons x xs)
  show ?case
  proof (cases "P x")
    case True
    then have "x # xs = [] @ x # xs \<and> P x \<and> list_all (\<lambda>y. \<not> P y) []" by simp
    then show ?thesis by blast
  next
    case False
    with Cons.prems have "list_ex P xs" by simp
    from Cons.IH [OF this] obtain pre y post where "xs = pre @ y # post" "P y" "list_all (\<lambda>y. \<not> P y) pre" by blast
    with False have "x # xs = (x # pre) @ y # post \<and> P y \<and> list_all (\<lambda>y. \<not> P y) (x # pre)" by simp
    then show ?thesis by blast
  qed
qed

lemma unassignENI_None:
  "list_all (\<lambda>e'. \<not> holdsAssigned ip e') (map snd es) \<Longrightarrow> unassignENI now ip es = None"
proof (induction es)
  case Nil then show ?case by simp
next
  case (Cons p es)
  obtain k' e' where p: "p = (k', e')" by (cases p)
  from Cons.prems p have m: "\<not> holdsAssigned ip e'" by simp
  from Cons show ?case unfolding p by (simp add: unassignENI_miss [OF m] del: unassignENI.simps)
qed

lemma time_Sub_less: "d \<le> maxDuration \<Longrightarrow> minDuration < d \<Longrightarrow> time_Sub t u < d \<longleftrightarrow> t - u < d"
  by (auto simp: time_Sub_def)

lemma minLifeTime_range: "minLifeTime \<le> maxDuration" "minDuration < minLifeTime"
  "addressCoolingPeriod \<le> maxDuration" "minDuration < addressCoolingPeriod"
  by (simp_all add: minLifeTime_def addressCoolingPeriod_def Minute_def Second_def maxDuration_def minDuration_def)

lemma deletableENI_step:
  "deletableENI now ((k, eni) # rest) = (if deletable now eni then Some eni else deletableENI now rest)"
  using minLifeTime_range
  by (simp add: deletable_def time_Sub_less) (simp add: minLifeTime_def addressCoolingPeriod_def Minute_def)

lemma deletableENI_Some:
  "deletableENI now es = Some d \<Longrightarrow>
   \<exists>pre k post. es = pre @ (k, d) # post \<and> deletable now d \<and> list_all (\<lambda>e. \<not> deletable now e) (map snd pre)"
proof (induction es)
  case Nil then show ?case by simp
next
  case (Cons p es)
  obtain k e where p: "p = (k, e)" by (cases p)
  show ?case
  proof (cases "deletable now e")
    case True
    with Cons.prems p have "d = e" by (simp add: deletableENI_step del: deletableENI.simps)
    with True p have "p # es = [] @ (k, d) # es \<and> deletable now d \<and> list_all (\<lambda>e. \<not> deletable now e) (map snd [])"
      by simp
    then show ?thesis by blast
  next
    case False
    with Cons.prems p have "deletableENI now es = Some d" by (simp add: deletableENI_step del: deletableENI.simps)
    from Cons.IH [OF this] obtain pre k' post where
      "es = pre @ (k', d) # post" "deletable now d" "list_all (\<lambda>e. \<not> deletable now e) (map snd pre)" by blast
    with False p have "p # es = (p # pre) @ (k', d) # post \<and> deletable now d \<and> list_all (\<lambda>e. \<not> deletable now e) (map snd (p # pre))"
      by simp
    then show ?thesis by blast
  qed
qed

lemma deletableENI_None:
  "list_all (\<lambda>e. \<not> deletable now e) (map snd es) \<Longrightarrow> deletableENI now es = None"
proof (induction es)
  case Nil then show ?case by simp
next
  case (Cons p es)
  obtain k e where p: "p = (k, e)" by (cases p)
  with Cons show ?case by (simp add: deletableENI_step del: deletableENI.simps)
qed

lemma wf_ds_keys:
  "wf_ds ds \<Longrightarrow> eniIPPools ds = pre @ (k, e) # post \<Longrightarrow>
   eni_id e = k \<and> k \<notin> fst ` set pre \<and> k \<notin> fst ` set post \<and> map_of (eniIPPools ds) k = Some e"
proof -
  assume wf: "wf_ds ds" and sp: "eniIPPools ds = pre @ (k, e) # post"
  from wf sp have a: "eni_id e = k" "k \<notin> fst ` set pre" "k \<notin> fst ` set post"
    by (auto simp: wf_ds_def wf_eni_def)
  with map_of_mid [of k pre e post] sp show ?thesis by simp
qed

lemma FreeENI_Some:
  assumes wf: "wf_ds ds" and f: "FreeENI now ds = (Inr i, ds')"
  shows "\<exists>pre d post. eniIPPools ds = pre @ (i, d) # post \<and> eni_id d = i \<and> deletable now d \<and>
     i \<notin> fst ` set pre \<and> i \<notin> fst ` set post \<and>
     ds' = ds\<lparr>total_cnt := total_cnt ds - int (length (IPv4Addresses d)),
              assigned := assigned ds,
              eniIPPools := pre @ post\<rparr>"
proof -
  from f obtain d where d: "deletableENI now (eniIPPools ds) = Some d"
    by (auto simp: FreeENI_def getDeletableENI_def split: option.splits)
  from deletableENI_Some [OF d] obtain pre k post where
    sp: "eniIPPools ds = pre @ (k, d) # post" and del: "deletable now d" by blast
  from wf_ds_keys [OF wf sp] have k: "eni_id d = k" "k \<notin> fst ` set pre" "k \<notin> fst ` set post"
    "map_of (eniIPPools ds) k = Some d" by simp_all
  from del have z: "AssignedIPv4Addresses d = 0" by (simp add: deletable_def)
  from f d k have "i = k" and "ds' = ds\<lparr>total_cnt := total_cnt ds - int (length (IPv4Addresses d)),
              assigned := assigned ds - AssignedIPv4Addresses d,
              eniIPPools := AList.delete k (eniIPPools ds)\<rparr>"
    by (auto simp: FreeENI_def getDeletableENI_def)
  with sp k z del have "eniIPPools ds = pre @ (i, d) # post \<and> eni_id d = i \<and> deletable now d \<and>
     i \<notin> fst ` set pre \<and> i \<notin> fst ` set post \<and>
     ds' = ds\<lparr>total_cnt := total_cnt ds - int (length (IPv4Addresses d)),
              assigned := assigned ds,
              eniIPPools := pre @ post\<rparr>"
    by (simp add: delete_split)
  then show ?thesis by blast
qed

lemma unassignENI_Some:
  assumes "unassignENI now ip es = Some (es', r)"
  shows "\<exists>pre k e post a. es = pre @ (k, e) # post \<and>
     list_all (\<lambda>e'. \<not> holdsAssigned ip e') (map snd pre) \<and>
     map_of (IPv4Addresses e) ip = Some a \<and> Assigned a \<and>
     es' = pre @ (k, releaseOn now ip a e) # post \<and> r = (address a, DeviceNumber e)"
proof (cases "list_ex (\<lambda>p. holdsAssigned ip (snd p)) es")
  case False
  then have "list_all (\<lambda>e'. \<not> holdsAssigned ip e') (map snd es)"
    by (simp add: list_all_iff list_ex_iff)
  from unassignENI_None [OF this] assms show ?thesis by simp
next
  case True
  from first_holder [OF True] obtain pre x post where
    sp: "es = pre @ x # post" and hx: "holdsAssigned ip (snd x)"
    and np: "list_all (\<lambda>y. \<not> holdsAssigned ip (snd y)) pre" by blast
  obtain k e where x: "x = (k, e)" by (cases x)
  from hx x obtain a where a: "map_of (IPv4Addresses e) ip = Some a" "Assigned a"
    by (auto simp: holdsAssigned_def split: option.splits)
  from np have np': "list_all (\<lambda>e'. \<not> holdsAssigned ip e') (map snd pre)"
    by (simp add: list_all_iff)
  from unassignENI_first [OF sp [unfolded x] np' a] assms
  have "es' = pre @ (k, releaseOn now ip a e) # post \<and> r = (address a, DeviceNumber e)" by simp
  with sp x np' a show ?thesis by blast
qed

lemma wf_ds_enis: "wf_ds ds = wf_enis (eniIPPools ds)"
  by (simp add: wf_ds_def wf_enis_def)

lemma wf_enis_replace:
  "wf_enis (pre @ (k, e) # post) \<Longrightarrow> wf_addrs (IPv4Addresses e') \<Longrightarrow> eni_id e' = eni_id e \<Longrightarrow>
   wf_enis (pre @ (k, e') # post)"
  by (simp add: wf_enis_def wf_eni_def)

lemma wf_enis_mid: "wf_enis (pre @ (k, e) # post) \<Longrightarrow> wf_addrs (IPv4Addresses e) \<and> eni_id e = k"
  by (simp add: wf_enis_def wf_eni_def)

lemma wf_enis_remove: "wf_enis (pre @ x # post) \<Longrightarrow> wf_enis (pre @ post)"
  by (auto simp: wf_enis_def)

lemma wf_addrs_flag:
  "wf_addrs (pre @ (k, x) # post) \<Longrightarrow> address x' = address x \<Longrightarrow> wf_addrs (pre @ (k, x') # post)"
  by (simp add: wf_addrs_def)

lemma wf_AddENI: "wf_ds ds \<Longrightarrow> wf_ds (snd (AddENI now eniID dev prim ds))"
  by (auto simp: AddENI_def wf_ds_def wf_eni_def wf_addrs_def update_fresh map_of_eq_None_iff
      split: option.splits)

lemma wf_AddENIIPv4Address:
  assumes "wf_ds ds" shows "wf_ds (snd (AddENIIPv4Address eniID ipv4 ds))"
proof (cases "map_of (eniIPPools ds) eniID")
  case None then show ?thesis using assms by (simp add: AddENIIPv4Address_def)
next
  case (Some cur)
  show ?thesis
  proof (cases "map_of (IPv4Addresses cur) ipv4")
    case (Some a)
    with \<open>map_of (eniIPPools ds) eniID = Some cur\<close> assms show ?thesis by (simp add: AddENIIPv4Address_def)
  next
    case None
    from map_of_split [OF \<open>map_of (eniIPPools ds) eniID = Some cur\<close>] obtain pre post where
      sp: "eniIPPools ds = pre @ (eniID, cur) # post" "eniID \<notin> fst ` set pre" by blast
    from assms sp have w: "wf_enis (pre @ (eniID, cur) # post)" by (simp add: wf_ds_enis)
    from wf_enis_mid [OF w] None have "wf_addrs (IPv4Addresses cur @ [(ipv4, \<lparr>Assigned = False, address = ipv4, unAssignedTime = zeroTime\<rparr>)])"
      by (auto simp: wf_addrs_def map_of_eq_None_iff)
    from wf_enis_replace [OF w, of "cur\<lparr>IPv4Addresses := IPv4Addresses cur @ [(ipv4, \<lparr>Assigned = False, address = ipv4, unAssignedTime = zeroTime\<rparr>)]\<rparr>"] this
    show ?thesis using None \<open>map_of (eniIPPools ds) eniID = Some cur\<close> sp
      by (simp add: AddENIIPv4Address_def wf_ds_enis update_fresh update_split)
  qed
qed

lemma wf_assignENI:
  assumes "wf_enis es" "assignENI ip es = Some (es', r)" shows "wf_enis es'"
proof -
  obtain a dev inc where r: "r = (a, dev, inc)" by (cases r)
  from assignENI_split [OF assms(2) [unfolded r]] obtain pre k e post as' where
    h: "es = pre @ (k, e) # post" "assignAddr ip (IPv4Addresses e) = Some (as', a, inc)"
      "es' = pre @ (k, claimOn e as' inc) # post" by blast
  from assignAddr_split [OF h(2)] obtain apre ka x apost where
    g: "IPv4Addresses e = apre @ (ka, x) # apost" "as' = apre @ (ka, x\<lparr>Assigned := True\<rparr>) # apost" by blast
  from assms(1) h(1) have w: "wf_enis (pre @ (k, e) # post)" by simp
  from wf_enis_mid [OF w] g have "wf_addrs as'" by (simp add: wf_addrs_def)
  with wf_enis_replace [OF w, of "claimOn e as' inc"] h(3) show ?thesis by (simp add: claimOn_def)
qed

lemma wf_AssignPodIPv4Address: "wf_ds ds \<Longrightarrow> wf_ds (snd (AssignPodIPv4Address pod ds))"
  by (auto simp: AssignPodIPv4Address_def assignPodIPv4AddressUnsafe_def wf_ds_enis
      split: option.splits dest: wf_assignENI)

lemma update_keys: "map_of as k = Some v \<Longrightarrow> map fst (AList.update k v' as) = map fst as"
  by (induction as) (auto split: if_splits)

lemma wf_addrs_update:
  "wf_addrs as \<Longrightarrow> map_of as ip = Some a \<Longrightarrow> address a' = address a \<Longrightarrow> wf_addrs (AList.update ip a' as)"
proof -
  assume w: "wf_addrs as" and m: "map_of as ip = Some a" and a: "address a' = address a"
  from map_of_split [OF m] obtain pre post where sp: "as = pre @ (ip, a) # post" "ip \<notin> fst ` set pre" by blast
  with w a show ?thesis by (simp add: update_split wf_addrs_def)
qed

lemma wf_unassignENI:
  assumes "wf_enis es" "unassignENI now ip es = Some (es', r)" shows "wf_enis es'"
proof -
  from unassignENI_Some [OF assms(2)] obtain pre k e post a where
    h: "es = pre @ (k, e) # post" "map_of (IPv4Addresses e) ip = Some a"
       "es' = pre @ (k, releaseOn now ip a e) # post" by blast
  from assms(1) h(1) have w: "wf_enis (pre @ (k, e) # post)" by simp
  from wf_enis_mid [OF w] h(2) have "wf_addrs (IPv4Addresses (releaseOn now ip a e))"
    by (simp add: releaseOn_def wf_addrs_update)
  with wf_enis_replace [OF w, of "releaseOn now ip a e"] h(3) show ?thesis by (simp add: releaseOn_def)
qed

lemma wf_UnAssignPodIPv4Address: "wf_ds ds \<Longrightarrow> wf_ds (snd (UnAssignPodIPv4Address now pod ds))"
  by (auto simp: UnAssignPodIPv4Address_def wf_ds_enis split: option.splits dest: wf_unassignENI)

lemma wf_FreeENI: assumes "wf_ds ds" shows "wf_ds (snd (FreeENI now ds))"
proof (cases "fst (FreeENI now ds)")
  case (Inl e)
  then have "snd (FreeENI now ds) = ds" by (auto simp: FreeENI_def split: option.splits)
  with assms show ?thesis by simp
next
  case (Inr i)
  then have "FreeENI now ds = (Inr i, snd (FreeENI now ds))" by (metis prod.collapse)
  from FreeENI_Some [OF assms this] obtain pre d post where
    h: "eniIPPools ds = pre @ (i, d) # post"
     "snd (FreeENI now ds) = ds\<lparr>total_cnt := total_cnt ds - int (length (IPv4Addresses d)),
              assigned := assigned ds, eniIPPools := pre @ post\<rparr>" by blast
  from assms h(1) have "wf_enis (pre @ (i, d) # post)" by (simp add: wf_ds_enis)
  from wf_enis_remove [OF this] show ?thesis unfolding h(2) by (simp add: wf_ds_enis)
qed

lemma sumA_simps:
  "sumAssigned [] = 0" "sumAssigned ((k, e) # post) = AssignedIPv4Addresses e + sumAssigned post"
  "sumAssigned (pre @ post) = sumAssigned pre + sumAssigned post"
  by (simp_all add: sumAssigned_def)

lemma sumT_simps:
  "sumAddresses [] = 0" "sumAddresses ((k, e) # post) = int (length (IPv4Addresses e)) + sumAddresses post"
  "sumAddresses (pre @ post) = sumAddresses pre + sumAddresses post"
  by (simp_all add: sumAddresses_def)

lemma counted_pair: "counted (k, e) \<longleftrightarrow> AssignedIPv4Addresses e = assignedOn e"
  by (simp add: counted_def)

lemmas counter_simps = counted_pair sumA_simps sumT_simps assignedOn_def

lemma counters_AddENI: "counters_ok ds \<Longrightarrow> counters_ok (snd (AddENI now eniID dev prim ds))"
  by (auto simp: AddENI_def counters_ok_def update_fresh counter_simps
      split: option.splits)

lemma counters_AddENIIPv4Address:
  assumes "counters_ok ds" shows "counters_ok (snd (AddENIIPv4Address eniID ipv4 ds))"
proof (cases "map_of (eniIPPools ds) eniID")
  case None then show ?thesis using assms by (simp add: AddENIIPv4Address_def)
next
  case (Some cur)
  note cur = this
  show ?thesis
  proof (cases "map_of (IPv4Addresses cur) ipv4")
    case (Some a)
    with cur assms show ?thesis by (simp add: AddENIIPv4Address_def)
  next
    case None
    from map_of_split [OF cur] obtain pre post where
      sp: "eniIPPools ds = pre @ (eniID, cur) # post" "eniID \<notin> fst ` set pre" by blast
    with assms None cur show ?thesis
      by (simp add: AddENIIPv4Address_def counters_ok_def update_fresh update_split counter_simps)
  qed
qed

lemma counters_assign:
  assumes c: "list_all counted es" and a: "assignENI ip es = Some (es', a, dev, inc)"
  shows "list_all counted es' \<and> sumAssigned es' = sumAssigned es + (if inc then 1 else 0) \<and> sumAddresses es' = sumAddresses es"
proof -
  from assignENI_split [OF a] obtain pre k e post as' where
    h: "es = pre @ (k, e) # post" "assignAddr ip (IPv4Addresses e) = Some (as', a, inc)"
      "es' = pre @ (k, claimOn e as' inc) # post" by blast
  from assignAddr_split [OF h(2)] obtain apre ka x apost where
    g: "IPv4Addresses e = apre @ (ka, x) # apost" "as' = apre @ (ka, x\<lparr>Assigned := True\<rparr>) # apost"
       "inc = (\<not> Assigned x)" by blast
  from c h(1) g show ?thesis unfolding h(1) h(3)
    by (simp add: counter_simps claimOn_def)
qed

lemma counters_AssignPodIPv4Address:
  assumes "counters_ok ds" shows "counters_ok (snd (AssignPodIPv4Address pod ds))"
proof (cases "podsIP ds (NewPodKey pod)")
  case (Some b) with assms show ?thesis by (simp add: AssignPodIPv4Address_def)
next
  case None
  show ?thesis
  proof (cases "assignENI (IP pod) (eniIPPools ds)")
    case None
    with \<open>podsIP ds (NewPodKey pod) = None\<close> assms show ?thesis
      by (simp add: AssignPodIPv4Address_def assignPodIPv4AddressUnsafe_def)
  next
    case (Some r)
    obtain es' a dev inc where r: "r = (es', a, dev, inc)" by (cases r)
    from assms have "list_all counted (eniIPPools ds)" by (simp add: counters_ok_def)
    from counters_assign [OF this Some [unfolded r]] assms Some r \<open>podsIP ds (NewPodKey pod) = None\<close>
    show ?thesis
      by (simp add: AssignPodIPv4Address_def assignPodIPv4AddressUnsafe_def counters_ok_def)
  qed
qed

lemma counters_unassign:
  assumes c: "list_all counted es" and u: "unassignENI now ip es = Some (es', r)"
  shows "list_all counted es' \<and> sumAssigned es' = sumAssigned es - 1 \<and> sumAddresses es' = sumAddresses es"
proof -
  from unassignENI_Some [OF u] obtain pre k e post a where
    h: "es = pre @ (k, e) # post" "map_of (IPv4Addresses e) ip = Some a" "Assigned a"
       "es' = pre @ (k, releaseOn now ip a e) # post" by blast
  from map_of_split [OF h(2)] obtain apre apost where
    g: "IPv4Addresses e = apre @ (ip, a) # apost" "ip \<notin> fst ` set apre" by blast
  from c h(1,3) g show ?thesis unfolding h(1) h(4)
    by (simp add: counter_simps releaseOn_def update_split)
qed

lemma counters_UnAssignPodIPv4Address:
  assumes "counters_ok ds" shows "counters_ok (snd (UnAssignPodIPv4Address now pod ds))"
proof (cases "podsIP ds (NewPodKey pod)")
  case None with assms show ?thesis by (simp add: UnAssignPodIPv4Address_def)
next
  case (Some b)
  show ?thesis
  proof (cases "unassignENI now (pod_IP b) (eniIPPools ds)")
    case None
    with Some assms show ?thesis by (simp add: UnAssignPodIPv4Address_def)
  next
    case (Some r)
    obtain es' a dev where r: "r = (es', a, dev)" by (cases r)
    from assms have "list_all counted (eniIPPools ds)" by (simp add: counters_ok_def)
    from counters_unassign [OF this Some [unfolded r]] assms Some r \<open>podsIP ds (NewPodKey pod) = Some b\<close>
    show ?thesis
      by (simp add: UnAssignPodIPv4Address_def counters_ok_def)
  qed
qed

lemma counters_FreeENI:
  assumes "wf_ds ds" "counters_ok ds" shows "counters_ok (snd (FreeENI now ds))"
proof (cases "fst (FreeENI now ds)")
  case (Inl e)
  then have "snd (FreeENI now ds) = ds" by (auto simp: FreeENI_def split: option.splits)
  with assms show ?thesis by simp
next
  case (Inr i)
  then have "FreeENI now ds = (Inr i, snd (FreeENI now ds))" by (metis prod.collapse)
  from FreeENI_Some [OF assms(1) this] obtain pre d post where
    h: "eniIPPools ds = pre @ (i, d) # post" "deletable now d"
     "snd (FreeENI now ds) = ds\<lparr>total_cnt := total_cnt ds - int (length (IPv4Addresses d)),
              assigned := assigned ds, eniIPPools := pre @ post\<rparr>" by blast
  from assms(2) h(1,2) show ?thesis unfolding h(3)
    by (simp add: counters_ok_def counter_simps deletable_def)
qed

lemma mset_list_all: "mset xs = mset ys \<Longrightarrow> list_all P xs = list_all P ys"
  by (auto simp: list_all_iff dest: mset_eq_setD)

lemma mset_sum_list: "mset xs = mset ys \<Longrightarrow> sum_list (map f xs) = (sum_list (map f ys) :: int)"
proof -
  assume "mset xs = mset ys"
  then have "image_mset f (mset xs) = image_mset f (mset ys)" by simp
  then have "mset (map f xs) = mset (map f ys)" by simp
  then have "sum_mset (mset (map f xs)) = sum_mset (mset (map f ys))" by (rule arg_cong)
  then show ?thesis by (simp only: sum_mset_sum_list)
qed

lemma mset_distinct_keys: "mset xs = mset ys \<Longrightarrow> distinct (map fst xs) = distinct (map fst ys)"
proof -
  assume "mset xs = mset ys"
  then have "mset (map fst xs) = mset (map fst ys)" by (metis mset_map)
  then show ?thesis by (rule mset_eq_imp_distinct_iff)
qed

lemma mset_filter_length: "mset xs = mset ys \<Longrightarrow> length (filter P xs) = length (filter P ys)"
proof -
  assume "mset xs = mset ys"
  then have "mset (filter P xs) = mset (filter P ys)" by (metis mset_filter)
  then show ?thesis by (rule mset_eq_length)
qed

lemma wf_addrs_mset: "mset as' = mset as \<Longrightarrow> wf_addrs as' = wf_addrs as"
  by (simp add: wf_addrs_def mset_distinct_keys [of as' as] mset_list_all [of as' as])

lemma wf_reorder: assumes "reorder ds ds'" "wf_ds ds" shows "wf_ds ds'"
  using assms
proof cases
  case (enis enis')
  with assms(2) show ?thesis
    by (simp add: wf_ds_def mset_distinct_keys [OF enis(2)] mset_list_all [OF enis(2)])
next
  case (addrs pre k e post as')
  from assms(2) addrs(2) have w: "wf_enis (pre @ (k, e) # post)" by (simp add: wf_ds_enis)
  from wf_enis_mid [OF w] wf_addrs_mset [OF addrs(3)] have "wf_addrs as'" by simp
  with wf_enis_replace [OF w, of "e\<lparr>IPv4Addresses := as'\<rparr>"] addrs(1) show ?thesis
    by (simp add: wf_ds_enis)
qed

lemma counters_reorder: assumes "reorder ds ds'" "counters_ok ds" shows "counters_ok ds'"
  using assms
proof cases
  case (enis enis')
  with assms(2) show ?thesis
    by (simp add: counters_ok_def sumAssigned_def sumAddresses_def mset_sum_list [OF enis(2)] mset_list_all [OF enis(2)])
next
  case (addrs pre k e post as')
  from assms(2) addrs(2) show ?thesis unfolding addrs(1)
    by (simp add: counters_ok_def counter_simps mset_filter_length [OF addrs(3)] mset_eq_length [OF addrs(3)])
qed

lemma reachable_wf_counters: "reachable ds \<Longrightarrow> wf_ds ds \<and> counters_ok ds"
proof (induction rule: reachable.induct)
  case new
  show ?case by (simp add: NewDataStore_def wf_ds_def counters_ok_def counter_simps)
next
  case (add_eni ds now eniID deviceNumber isPrimary)
  then show ?case by (simp add: wf_AddENI counters_AddENI)
next
  case (add_ip ds eniID ipv4)
  then show ?case by (simp add: wf_AddENIIPv4Address counters_AddENIIPv4Address)
next
  case (assign ds k8sPod)
  then show ?case by (simp add: wf_AssignPodIPv4Address counters_AssignPodIPv4Address)
next
  case (unassign ds now k8sPod)
  then show ?case by (simp add: wf_UnAssignPodIPv4Address counters_UnAssignPodIPv4Address)
next
  case (free_eni ds now)
  then show ?case by (simp add: wf_FreeENI counters_FreeENI)
next
  case (reorder ds ds')
  then show ?case by (simp add: wf_reorder counters_reorder)
qed

lemma assignAddr_first:
  "list_all (passed ip) (map snd pre) \<Longrightarrow> ip = address x \<or> (\<not> Assigned x \<and> ip = []) \<Longrightarrow>
   assignAddr ip (pre @ (k, x) # post) = Some (pre @ (k, x\<lparr>Assigned := True\<rparr>) # post, address x, \<not> Assigned x)"
proof (induction pre)
  case Nil
  then show ?case by (simp add: assignAddr_hit del: assignAddr.simps)
next
  case (Cons p pre)
  obtain k' y where p: "p = (k', y)" by (cases p)
  from Cons.prems(1) p have py: "passed ip y" and r: "list_all (passed ip) (map snd pre)" by simp_all
  from Cons.IH [OF r Cons.prems(2)] show ?case
    unfolding p by (simp add: assignAddr_miss [OF py] del: assignAddr.simps)
qed

lemma assignAddr_None:
  "list_all (\<lambda>y. passed ip y \<and> \<not> (\<not> Assigned y \<and> ip = [])) (map snd as) \<Longrightarrow> assignAddr ip as = None"
proof (induction as)
  case Nil then show ?case by simp
next
  case (Cons p as)
  obtain k' y where p: "p = (k', y)" by (cases p)
  from Cons.prems p have py: "passed ip y" by simp
  from Cons show ?case unfolding p by (simp add: assignAddr_miss [OF py] del: assignAddr.simps)
qed

lemma assignENI_first:
  "list_all (skipped ip) (map snd pre) \<Longrightarrow> \<not> (ip = [] \<and> eniFull e) \<Longrightarrow>
   assignAddr ip (IPv4Addresses e) = Some (as', a, inc) \<Longrightarrow>
   assignENI ip (pre @ (k, e) # post) = Some (pre @ (k, claimOn e as' inc) # post, a, DeviceNumber e, inc)"
proof (induction pre)
  case Nil
  then show ?case by (simp add: assignENI_hit del: assignENI.simps)
next
  case (Cons p pre)
  obtain k' y where p: "p = (k', y)" by (cases p)
  from Cons.prems(1) p have py: "skipped ip y" and r: "list_all (skipped ip) (map snd pre)" by simp_all
  from Cons.IH [OF r Cons.prems(2,3)] show ?case
    unfolding p by (simp add: assignENI_skip [OF py] del: assignENI.simps)
qed

lemma wf_addrs_absent:
  "wf_addrs as \<Longrightarrow> ip \<noteq> [] \<Longrightarrow> ip \<notin> fst ` set as \<Longrightarrow>
   list_all (\<lambda>y. passed ip y \<and> \<not> (\<not> Assigned y \<and> ip = [])) (map snd as)"
  by (fastforce simp: wf_addrs_def list_all_iff passed_def image_iff)

lemma assignAddr_requested:
  assumes w: "wf_addrs as" and ip: "ip \<noteq> []" and m: "map_of as ip = Some a"
  shows "\<exists>pre post. as = pre @ (ip, a) # post \<and> ip \<notin> fst ` set pre \<and>
     assignAddr ip as = Some (pre @ (ip, a\<lparr>Assigned := True\<rparr>) # post, ip, \<not> Assigned a)"
proof -
  from map_of_split [OF m] obtain pre post where sp: "as = pre @ (ip, a) # post" "ip \<notin> fst ` set pre" by blast
  from w sp have a: "address a = ip" and "wf_addrs pre" by (simp_all add: wf_addrs_def)
  from wf_addrs_absent [OF this(2) ip sp(2)] have "list_all (passed ip) (map snd pre)"
    by (simp add: list_all_iff)
  from assignAddr_first [OF this, of a ip post] a sp show ?thesis by auto
qed

lemma claimOn_same: "claimOn e (IPv4Addresses e) False = e"
  by (simp add: claimOn_def)

lemma assign_shared:
  assumes wf: "wf_ds ds" and nb: "podsIP ds (NewPodKey pod) = None" and ip: "IP pod \<noteq> []"
    and sp: "eniIPPools ds = pre @ (k, e) # post"
    and m: "map_of (IPv4Addresses e) (IP pod) = Some a" and a: "Assigned a"
    and u: "list_all (\<lambda>(k', e'). map_of (IPv4Addresses e') (IP pod) = None) (pre @ post)"
  shows "AssignPodIPv4Address pod ds =
     (Inr (IP pod, DeviceNumber e),
      ds\<lparr>podsIP := (podsIP ds)(NewPodKey pod \<mapsto>
            \<lparr>pod_IP = IP pod, pod_DeviceNumber = DeviceNumber e\<rparr>)\<rparr>)"
proof -
  from wf sp have w: "wf_enis (pre @ (k, e) # post)" by (simp add: wf_ds_enis)
  have "list_all (skipped (IP pod)) (map snd pre)"
    unfolding list_all_iff
  proof
    fix e' assume "e' \<in> set (map snd pre)"
    then obtain k' where in_pre: "(k', e') \<in> set pre" by auto
    with u have "map_of (IPv4Addresses e') (IP pod) = None" by (auto simp: list_all_iff)
    then have no: "IP pod \<notin> fst ` set (IPv4Addresses e')" by (simp add: map_of_eq_None_iff)
    from w in_pre have "wf_addrs (IPv4Addresses e')" by (auto simp: wf_enis_def wf_eni_def list_all_iff)
    from assignAddr_None [OF wf_addrs_absent [OF this ip no]] show "skipped (IP pod) e'"
      by (simp add: skipped_def)
  qed
  moreover from ip have "\<not> (IP pod = [] \<and> eniFull e)" by simp
  moreover from wf_enis_mid [OF w] have "wf_addrs (IPv4Addresses e)" by simp
  from assignAddr_requested [OF this ip m] a
  have "assignAddr (IP pod) (IPv4Addresses e) = Some (IPv4Addresses e, IP pod, False)"
    by (auto simp: Assigned_idem)
  ultimately have "assignENI (IP pod) (pre @ (k, e) # post) =
      Some (pre @ (k, claimOn e (IPv4Addresses e) False) # post, IP pod, DeviceNumber e, False)"
    by (rule assignENI_first)
  with nb sp show ?thesis
    by (simp add: AssignPodIPv4Address_def assignPodIPv4AddressUnsafe_def claimOn_same)
qed

lemma assignAddr_ip: "assignAddr ip as = Some (as', a, inc) \<Longrightarrow> ip \<noteq> [] \<Longrightarrow> a = ip"
  by (induction ip as arbitrary: as' rule: assignAddr.induct) (auto split: if_splits option.splits)

lemma assignENI_ip: "assignENI ip es = Some (es', a, dev, inc) \<Longrightarrow> ip \<noteq> [] \<Longrightarrow> a = ip"
  by (induction ip es arbitrary: es' rule: assignENI.induct) (auto split: if_splits option.splits dest: assignAddr_ip)

lemma assign_again:
  assumes "IP pod \<noteq> []" and "AssignPodIPv4Address pod ds = (Inr r, ds1)"
  shows "AssignPodIPv4Address pod ds1 = (Inr r, ds1)"
proof (cases "podsIP ds (NewPodKey pod)")
  case (Some b)
  with assms show ?thesis
    by (auto simp: AssignPodIPv4Address_def split: if_splits)
next
  case None
  with assms(2) obtain es a dev inc where
    hit: "assignENI (IP pod) (eniIPPools ds) = Some (es, a, dev, inc)"
    and r: "r = (a, dev)"
    and ds1: "podsIP ds1 (NewPodKey pod) = Some \<lparr>pod_IP = a, pod_DeviceNumber = dev\<rparr>"
    by (auto simp: AssignPodIPv4Address_def assignPodIPv4AddressUnsafe_def split: option.splits)
  from assignENI_ip [OF hit assms(1)] have "a = IP pod" .
  with ds1 r assms(1) show ?thesis
    by (simp add: AssignPodIPv4Address_def)
qed

lemma wf_enis_member:
  "wf_enis es \<Longrightarrow> (k, e) \<in> set es \<Longrightarrow> eni_id e = k \<and> wf_addrs (IPv4Addresses e)"
  by (induction es) (auto simp: wf_enis_def wf_eni_def)

subsection \<open>The scenarios, evaluated\<close>

lemma s1_pool_eval:
  "s1_pool = \<lparr>total_cnt = 1, assigned = 0,
     eniIPPools = [(''eni-a'', \<lparr>createTime = 0, lastUnAssignedTime = zeroTime, IsPrimary = True,
        eni_id = ''eni-a'', DeviceNumber = 1, AssignedIPv4Addresses = 0,
        IPv4Addresses = [(''10.0.0.5'', \<lparr>Assigned = False, address = ''10.0.0.5'', unAssignedTime = zeroTime\<rparr>)]\<rparr>)],
     podsIP = Map.empty\<rparr>"
  by (simp add: s1_pool_def AddENI_def AddENIIPv4Address_def NewDataStore_def)

lemma s1_bound_eval:
  "s1_bound = \<lparr>total_cnt = 1, assigned = 1,
     eniIPPools = [(''eni-a'', \<lparr>createTime = 0, lastUnAssignedTime = zeroTime, IsPrimary = True,
        eni_id = ''eni-a'', DeviceNumber = 1, AssignedIPv4Addresses = 1,
        IPv4Addresses = [(''10.0.0.5'', \<lparr>Assigned = True, address = ''10.0.0.5'', unAssignedTime = zeroTime\<rparr>)]\<rparr>)],
     podsIP = [NewPodKey pod_p \<mapsto> \<lparr>pod_IP = ''10.0.0.5'', pod_DeviceNumber = 1\<rparr>]\<rparr>"
  by (simp add: s1_bound_def s1_pool_eval AssignPodIPv4Address_def assignPodIPv4AddressUnsafe_def pod_p_def)

lemma s4_pool_eval:
  "s4_pool = \<lparr>total_cnt = 0, assigned = 0,
     eniIPPools = [(''eni-b'', \<lparr>createTime = 0, lastUnAssignedTime = zeroTime, IsPrimary = False,
        eni_id = ''eni-b'', DeviceNumber = 2, AssignedIPv4Addresses = 0, IPv4Addresses = []\<rparr>)],
     podsIP = Map.empty\<rparr>"
  by (simp add: s4_pool_def AddENI_def NewDataStore_def)

lemma s4_free:
  "FreeENI (65 * Second) s4_pool = (Inr ''eni-b'', NewDataStore)"
  by (simp add: s4_pool_eval FreeENI_def getDeletableENI_def time_Sub_def zeroTime_def Second_def
      Minute_def minLifeTime_def addressCoolingPeriod_def maxDuration_def minDuration_def
      NewDataStore_def AList.delete_eq)

lemma two_eni_pool_eval:
  "two_eni_pool = \<lparr>total_cnt = 3, assigned = 1,
     eniIPPools =
       [(''eni-a'', \<lparr>createTime = 0, lastUnAssignedTime = zeroTime, IsPrimary = True,
          eni_id = ''eni-a'', DeviceNumber = 1, AssignedIPv4Addresses = 1,
          IPv4Addresses =
            [(''10.0.0.5'', \<lparr>Assigned = True, address = ''10.0.0.5'', unAssignedTime = zeroTime\<rparr>)]\<rparr>),
        (''eni-b'', \<lparr>createTime = 0, lastUnAssignedTime = zeroTime, IsPrimary = False,
          eni_id = ''eni-b'', DeviceNumber = 2, AssignedIPv4Addresses = 0,
          IPv4Addresses =
            [(''10.0.1.5'', \<lparr>Assigned = False, address = ''10.0.1.5'', unAssignedTime = zeroTime\<rparr>),
             (''10.0.1.6'', \<lparr>Assigned = False, address = ''10.0.1.6'', unAssignedTime = zeroTime\<rparr>)]\<rparr>)],
     podsIP = [NewPodKey pod_p \<mapsto> \<lparr>pod_IP = ''10.0.0.5'', pod_DeviceNumber = 1\<rparr>]\<rparr>"
  by (simp add: two_eni_pool_def s1_pool_eval AddENI_def AddENIIPv4Address_def
      AssignPodIPv4Address_def assignPodIPv4AddressUnsafe_def pod_p_def)

lemma two_eni_free:
  "FreeENI (65 * Second) two_eni_pool =
    (Inr ''eni-b'',
     \<lparr>total_cnt = 1, assigned = 1,
      eniIPPools =
        [(''eni-a'', \<lparr>createTime = 0, lastUnAssignedTime = zeroTime, IsPrimary = True,
           eni_id = ''eni-a'', DeviceNumber = 1, AssignedIPv4Addresses = 1,
           IPv4Addresses =
             [(''10.0.0.5'', \<lparr>Assigned = True, address = ''10.0.0.5'', unAssignedTime = zeroTime\<rparr>)]\<rparr>)],
      podsIP = [NewPodKey pod_p \<mapsto> \<lparr>pod_IP = ''10.0.0.5'', pod_DeviceNumber = 1\<rparr>]\<rparr>)"
  by (simp add: two_eni_pool_eval FreeENI_def getDeletableENI_def time_Sub_def zeroTime_def
      Second_def Minute_def minLifeTime_def addressCoolingPeriod_def maxDuration_def
      minDuration_def AList.delete_eq)

lemma two_eni_freed_eval:
  "two_eni_freed =
     \<lparr>total_cnt = 1, assigned = 1,
      eniIPPools =
        [(''eni-a'', \<lparr>createTime = 0, lastUnAssignedTime = zeroTime, IsPrimary = True,
           eni_id = ''eni-a'', DeviceNumber = 1, AssignedIPv4Addresses = 1,
           IPv4Addresses =
             [(''10.0.0.5'', \<lparr>Assigned = True, address = ''10.0.0.5'', unAssignedTime = zeroTime\<rparr>)]\<rparr>)],
      podsIP = [NewPodKey pod_p \<mapsto> \<lparr>pod_IP = ''10.0.0.5'', pod_DeviceNumber = 1\<rparr>]\<rparr>"
  by (simp add: two_eni_freed_def two_eni_free)

lemma wrap64_id: "- (2 ^ 63) \<le> x \<Longrightarrow> x < 2 ^ 63 \<Longrightarrow> wrap64 x = x"
  by (simp add: wrap64_def)

text \<open>Beyond that range the product of the second test wraps, and the tick shrinks where
  the plain comparison would not.\<close>

lemma poolAction_of_wraps:
  "poolAction_of (manager_wide (2 ^ 62 + 1) 0) = Shrink \<and> \<not> (2 ^ 62 + 1 - 0 > 2 * (2 ^ 62 :: int))"
  by (simp add: manager_wide_def GetStats_def poolAction_of_def wrap64_def NewDataStore_def)

lemma setupENI_nonneg:
  "0 \<le> currentMaxAddrsPerENI c \<Longrightarrow> 0 \<le> currentMaxAddrsPerENI (fst (snd (setupENI cl eni md c)))"
  by (simp add: setupENI_def Let_def split: prod.splits sum.splits option.splits)

lemma increaseIPPool_nonneg:
  assumes c: "0 \<le> currentMaxAddrsPerENI c"
  shows "0 \<le> currentMaxAddrsPerENI (fst (increaseIPPool cl c))"
proof (cases "AllocENI_r cl")
  case (Inl err)
  with c show ?thesis by (simp add: increaseIPPool_def)
next
  case (Inr eni)
  obtain r calls where w: "waitENIAttached cl eni 0 = (r, calls)" by (cases "waitENIAttached cl eni 0")
  show ?thesis
  proof (cases r)
    case None
    with c Inr w show ?thesis by (simp add: increaseIPPool_def)
  next
    case (Some md)
    obtain err c' calls' where s: "setupENI cl eni md c = (err, c', calls')"
      by (cases "setupENI cl eni md c")
    from setupENI_nonneg [OF c, of cl eni md] s have "0 \<le> currentMaxAddrsPerENI c'" by simp
    with c Inr w Some s show ?thesis by (simp add: increaseIPPool_def)
  qed
qed

lemma updateIPPoolIfRequired_nonneg:
  assumes c: "0 \<le> currentMaxAddrsPerENI c"
  shows "0 \<le> currentMaxAddrsPerENI (fst (updateIPPoolIfRequired cl c))"
proof -
  have "0 \<le> currentMaxAddrsPerENI (fst (decreaseIPPool cl c))"
    using c by (simp add: decreaseIPPool_def split: sum.splits prod.splits)
  with increaseIPPool_nonneg [OF c, of cl] c show ?thesis
    by (simp add: updateIPPoolIfRequired_def split: poolAction.splits)
qed

lemma increaseIPPool_calls:
  assumes "\<not> (maxENI c > 0 \<and> maxENI c = GetENIs (dataStore c))"
  shows "\<exists>calls. snd (increaseIPPool cl c) = CallAllocENI # calls"
proof (cases "AllocENI_r cl")
  case (Inl err)
  with assms show ?thesis by (simp add: increaseIPPool_def)
next
  case (Inr eni)
  obtain r calls where w: "waitENIAttached cl eni 0 = (r, calls)" by (cases "waitENIAttached cl eni 0")
  show ?thesis
  proof (cases r)
    case None
    with assms Inr w show ?thesis by (simp add: increaseIPPool_def)
  next
    case (Some md)
    obtain err c' calls' where s: "setupENI cl eni md c = (err, c', calls')"
      by (cases "setupENI cl eni md c")
    with assms Inr w Some show ?thesis by (simp add: increaseIPPool_def)
  qed
qed

lemma increaseIPPool_limit:
  "\<not> (maxENI c > 0 \<and> maxENI c = GetENIs (dataStore c)) \<Longrightarrow> AllocENI_r cl = Inl err \<Longrightarrow>
   strings_Contains err ''AttachmentLimitExceeded'' \<Longrightarrow>
   increaseIPPool cl c = (c\<lparr>maxENI := GetENIs (dataStore c)\<rparr>, [CallAllocENI])"
  by (simp add: increaseIPPool_def isAttachmentLimitExceededError_def)

lemma increaseIPPool_skip:
  "maxENI c > 0 \<Longrightarrow> maxENI c = GetENIs (dataStore c) \<Longrightarrow> increaseIPPool cl c = (c, [])"
  by (simp add: increaseIPPool_def)

lemma s1_released_eval:
  "UnAssignPodIPv4Address 7 pod_p s1_bound =
    (Inr (''10.0.0.5'', 1),
     \<lparr>total_cnt = 1, assigned = 0,
      eniIPPools = [(''eni-a'', \<lparr>createTime = 0, lastUnAssignedTime = 7, IsPrimary = True,
        eni_id = ''eni-a'', DeviceNumber = 1, AssignedIPv4Addresses = 0,
        IPv4Addresses = [(''10.0.0.5'', \<lparr>Assigned = False, address = ''10.0.0.5'', unAssignedTime = 7\<rparr>)]\<rparr>)],
      podsIP = Map.empty\<rparr>)"
  by (simp add: s1_bound_eval UnAssignPodIPv4Address_def)

lemma dup_pool_eval:
  "dup_pool = \<lparr>total_cnt = 2, assigned = 1,
     eniIPPools =
       [(''eni-a'', \<lparr>createTime = 0, lastUnAssignedTime = zeroTime, IsPrimary = True,
          eni_id = ''eni-a'', DeviceNumber = 1, AssignedIPv4Addresses = 0,
          IPv4Addresses = [(''10.0.0.5'', \<lparr>Assigned = False, address = ''10.0.0.5'', unAssignedTime = zeroTime\<rparr>)]\<rparr>),
        (''eni-b'', \<lparr>createTime = 0, lastUnAssignedTime = zeroTime, IsPrimary = False,
          eni_id = ''eni-b'', DeviceNumber = 2, AssignedIPv4Addresses = 1,
          IPv4Addresses = [(''10.0.0.5'', \<lparr>Assigned = True, address = ''10.0.0.5'', unAssignedTime = zeroTime\<rparr>)]\<rparr>)],
     podsIP = [NewPodKey pod_p \<mapsto> \<lparr>pod_IP = ''10.0.0.5'', pod_DeviceNumber = 2\<rparr>]\<rparr>"
  by (simp add: dup_pool_def AddENI_def AddENIIPv4Address_def NewDataStore_def
      AssignPodIPv4Address_def assignPodIPv4AddressUnsafe_def pod_p_def)

lemma dup_pool_reachable: "reachable dup_pool"
  unfolding dup_pool_def
  by (intro reachable.add_ip reachable.assign reachable.add_eni reachable.new)

section \<open>Lemmas about pod bindings and runs\<close>

lemma keysWhere_simps:
  "keysWhere P [] = {}"
  "keysWhere P ((k, e) # es) = (if P e then {k} else {}) \<union> keysWhere P es"
  "keysWhere P (xs @ ys) = keysWhere P xs \<union> keysWhere P ys"
  by (force simp: keysWhere_def)+

lemma keysWhere_set: "set es' = set es \<Longrightarrow> keysWhere P es' = keysWhere P es"
  by (simp add: keysWhere_def)

lemma keysWhere_keys: "keysWhere P es \<subseteq> fst ` set es"
  by (auto simp: keysWhere_def)

lemma keysWhere_mono: "(\<And>e. P e \<Longrightarrow> Q e) \<Longrightarrow> keysWhere P es \<subseteq> keysWhere Q es"
  by (auto simp: keysWhere_def)

lemma keysWhere_mid:
  "k \<notin> fst ` set pre \<Longrightarrow> k \<notin> fst ` set post \<Longrightarrow>
   k \<in> keysWhere P (pre @ (k, e) # post) \<longleftrightarrow> P e"
  using keysWhere_keys [of P pre] keysWhere_keys [of P post]
  by (auto simp: keysWhere_simps)

lemma unique_ips_mono:
  "unique_ips es \<Longrightarrow> (\<And>ip. keysWhere (holdsIP ip) es' \<subseteq> keysWhere (holdsIP ip) es) \<Longrightarrow>
   unique_ips es'"
  unfolding unique_ips_def by blast

lemma no_empty_ip_mono:
  "no_empty_ip es \<Longrightarrow> keysWhere (holdsIP []) es' \<subseteq> keysWhere (holdsIP []) es \<Longrightarrow> no_empty_ip es'"
  unfolding no_empty_ip_def by blast

lemma holdsIP_keys: "holdsIP ip e \<longleftrightarrow> ip \<in> fst ` set (IPv4Addresses e)"
  by (simp add: holdsIP_def map_of_eq_None_iff)

lemma holdsAssigned_holdsIP: "holdsAssigned ip e \<Longrightarrow> holdsIP ip e"
  by (auto simp: holdsAssigned_def holdsIP_def split: option.splits)

lemma holdsIP_same_keys:
  "map fst (IPv4Addresses e') = map fst (IPv4Addresses e) \<Longrightarrow> holdsIP ip e' = holdsIP ip e"
proof -
  assume "map fst (IPv4Addresses e') = map fst (IPv4Addresses e)"
  then have "set (map fst (IPv4Addresses e')) = set (map fst (IPv4Addresses e))" by simp
  then show ?thesis by (simp add: holdsIP_keys)
qed

lemma owners_replace:
  "(\<And>ip. holdsIP ip e' = holdsIP ip e) \<Longrightarrow>
   keysWhere (holdsIP ip) (pre @ (k, e') # post) = keysWhere (holdsIP ip) (pre @ (k, e) # post)"
  by (simp add: keysWhere_simps)

lemma assigned_owners_grow:
  "(\<And>ip. holdsAssigned ip e \<Longrightarrow> holdsAssigned ip e') \<Longrightarrow>
   keysWhere (holdsAssigned ip) (pre @ (k, e) # post)
     \<subseteq> keysWhere (holdsAssigned ip) (pre @ (k, e') # post)"
  by (auto simp: keysWhere_simps)

lemma unique_inv_parts:
  "unique_inv ds \<Longrightarrow> wf_ds ds" "unique_inv ds \<Longrightarrow> counters_ok ds"
  "unique_inv ds \<Longrightarrow> unique_ips (eniIPPools ds)" "unique_inv ds \<Longrightarrow> no_empty_ip (eniIPPools ds)"
  "unique_inv ds \<Longrightarrow> bindings_held ds" "unique_inv ds \<Longrightarrow> bindings_inj (podsIP ds)"
  by (simp_all add: unique_inv_def)

lemma flag_mid_assigned:
  "map_of (apre @ (ka, x) # apost) ip = Some y \<Longrightarrow> Assigned y \<Longrightarrow> Assigned x' \<Longrightarrow>
   \<exists>y'. map_of (apre @ (ka, x') # apost) ip = Some y' \<and> Assigned y'"
  by (induction apre) (auto split: if_splits)

lemma claim_keeps_assigned:
  assumes "IPv4Addresses e = apre @ (ka, x) # apost"
    and "holdsAssigned ip e"
  shows "holdsAssigned ip (claimOn e (apre @ (ka, x\<lparr>Assigned := True\<rparr>) # apost) inc)"
proof -
  from assms obtain y where "map_of (apre @ (ka, x) # apost) ip = Some y" "Assigned y"
    by (auto simp: holdsAssigned_def split: option.splits)
  moreover have "Assigned (x\<lparr>Assigned := True\<rparr>)" by simp
  ultimately have "\<exists>y'. map_of (apre @ (ka, x\<lparr>Assigned := True\<rparr>) # apost) ip = Some y' \<and> Assigned y'"
    by (rule flag_mid_assigned)
  then obtain y' where
    "map_of (apre @ (ka, x\<lparr>Assigned := True\<rparr>) # apost) ip = Some y'" "Assigned y'" by blast
  then show ?thesis by (simp add: holdsAssigned_def claimOn_def del: map_of_append)
qed

lemma claim_holds_assigned:
  assumes "ka \<notin> fst ` set apre"
  shows "holdsAssigned ka (claimOn e (apre @ (ka, x\<lparr>Assigned := True\<rparr>) # apost) inc)"
  using map_of_mid [OF assms, of "x\<lparr>Assigned := True\<rparr>" apost]
  by (simp add: holdsAssigned_def claimOn_def)

lemma claim_same_ips:
  assumes "IPv4Addresses e = apre @ (ka, x) # apost"
  shows "holdsIP ip (claimOn e (apre @ (ka, x') # apost) inc) = holdsIP ip e"
  using assms by (intro holdsIP_same_keys) (simp add: claimOn_def)

lemma bound_address_assigned:
  assumes J: "unique_inv ds" and b: "podsIP ds q = Some b"
    and sp: "eniIPPools ds = pre @ (k, e) # post"
    and as: "IPv4Addresses e = apre @ (pod_IP b, x) # apost"
  shows "Assigned x"
proof -
  let ?ip = "pod_IP b"
  from unique_inv_parts(1) [OF J] sp have w: "wf_enis (pre @ (k, e) # post)" by (simp add: wf_ds_enis)
  then have dk: "k \<notin> fst ` set pre" "k \<notin> fst ` set post" by (auto simp: wf_enis_def)
  from wf_enis_mid [OF w] as have da: "?ip \<notin> fst ` set apre" by (auto simp: wf_addrs_def)
  from unique_inv_parts(5) [OF J] b obtain k2 where
    k2: "k2 \<in> keysWhere (holdsAssigned ?ip) (eniIPPools ds)"
    unfolding bindings_held_def by blast
  with keysWhere_mono [of "holdsAssigned ?ip" "holdsIP ?ip", OF holdsAssigned_holdsIP]
  have "k2 \<in> keysWhere (holdsIP ?ip) (eniIPPools ds)" by blast
  moreover from as have "holdsIP ?ip e" by (simp add: holdsIP_keys)
  with sp have "k \<in> keysWhere (holdsIP ?ip) (eniIPPools ds)" by (simp add: keysWhere_simps)
  ultimately have "k2 = k" using unique_inv_parts(3) [OF J] unfolding unique_ips_def by blast
  with k2 sp keysWhere_mid [OF dk] have "holdsAssigned ?ip e" by simp
  with as map_of_mid [OF da, of x apost] show "Assigned x" by (simp add: holdsAssigned_def)
qed

lemma unique_inv_assign:
  assumes J: "unique_inv ds"
    and d: "IP pod = [] \<or> podsIP ds (NewPodKey pod) \<noteq> None \<or>
      \<not> list_ex (holdsAssigned (IP pod)) (map snd (eniIPPools ds))"
  shows "unique_inv (snd (AssignPodIPv4Address pod ds))"
proof (cases "podsIP ds (NewPodKey pod)")
  case (Some b)
  with J show ?thesis by (simp add: AssignPodIPv4Address_def)
next
  case None
  note nb = this
  show ?thesis
  proof (cases "assignENI (IP pod) (eniIPPools ds)")
    case None
    with nb J show ?thesis by (simp add: AssignPodIPv4Address_def assignPodIPv4AddressUnsafe_def)
  next
    case (Some r)
    obtain es' a dev inc where r: "r = (es', a, dev, inc)" by (cases r)
    let ?q = "NewPodKey pod"
    let ?m' = "(podsIP ds)(?q \<mapsto> \<lparr>pod_IP = a, pod_DeviceNumber = dev\<rparr>)"
    have res: "snd (AssignPodIPv4Address pod ds) =
        ds\<lparr>assigned := assigned ds + (if inc then 1 else 0), eniIPPools := es', podsIP := ?m'\<rparr>"
      using nb Some r by (simp add: AssignPodIPv4Address_def assignPodIPv4AddressUnsafe_def)
    from assignENI_split [OF Some [unfolded r]] obtain pre k e post as' where
      h: "eniIPPools ds = pre @ (k, e) # post" "assignAddr (IP pod) (IPv4Addresses e) = Some (as', a, inc)"
        "es' = pre @ (k, claimOn e as' inc) # post" by blast
    from assignAddr_split [OF h(2)] obtain apre ka x apost where
      g: "IPv4Addresses e = apre @ (ka, x) # apost" "as' = apre @ (ka, x\<lparr>Assigned := True\<rparr>) # apost"
        "a = address x" "IP pod = address x \<or> IP pod = [] \<and> \<not> Assigned x" by blast
    from unique_inv_parts(1) [OF J] h(1) have w: "wf_enis (pre @ (k, e) # post)" by (simp add: wf_ds_enis)
    from wf_enis_mid [OF w] g(1) have ka: "address x = ka" "ka \<notin> fst ` set apre"
      by (auto simp: wf_addrs_def)
    from g(1) have hk: "holdsIP ka e" by (simp add: holdsIP_keys)
    with h(1) have ko: "k \<in> keysWhere (holdsIP ka) (eniIPPools ds)" by (simp add: keysWhere_simps)
    have ne: "ka \<noteq> []"
    proof
      assume "ka = []"
      with ko unique_inv_parts(4) [OF J] show False by (simp add: no_empty_ip_def)
    qed
    have free: "\<not> Assigned x"
    proof
      assume ax: "Assigned x"
      with g(4) ka ne have ip: "IP pod = ka" by auto
      from ax g(1) map_of_mid [OF ka(2), of x apost] have "holdsAssigned ka e"
        by (simp add: holdsAssigned_def)
      with h(1) have "list_ex (holdsAssigned ka) (map snd (eniIPPools ds))" by simp
      with d ip ne nb show False by simp
    qed
    have same: "keysWhere (holdsIP ip) es' = keysWhere (holdsIP ip) (eniIPPools ds)" for ip
      unfolding h(1) h(3) g(2) by (rule owners_replace) (rule claim_same_ips [OF g(1)])
    have grow: "keysWhere (holdsAssigned ip) (eniIPPools ds) \<subseteq> keysWhere (holdsAssigned ip) es'" for ip
      unfolding h(1) h(3) g(2) by (rule assigned_owners_grow) (rule claim_keeps_assigned [OF g(1)])
    have new: "keysWhere (holdsAssigned a) es' \<noteq> {}"
      using claim_holds_assigned [OF ka(2), of e x apost inc] g(3) ka(1)
      unfolding h(3) g(2) by (auto simp: keysWhere_simps)
    have "wf_ds (snd (AssignPodIPv4Address pod ds))"
      using unique_inv_parts(1) [OF J] by (rule wf_AssignPodIPv4Address)
    moreover have "counters_ok (snd (AssignPodIPv4Address pod ds))"
      using unique_inv_parts(2) [OF J] by (rule counters_AssignPodIPv4Address)
    moreover have "unique_ips es'"
      using unique_inv_parts(3) [OF J] same by (auto intro: unique_ips_mono)
    moreover have "no_empty_ip es'"
      using unique_inv_parts(4) [OF J] same by (simp add: no_empty_ip_def)
    moreover have "bindings_held (ds\<lparr>assigned := assigned ds + (if inc then 1 else 0), eniIPPools := es', podsIP := ?m'\<rparr>)"
      unfolding bindings_held_def
    proof (intro allI impI)
      fix q0 b0
      assume q0: "podsIP (ds\<lparr>assigned := assigned ds + (if inc then 1 else 0), eniIPPools := es', podsIP := ?m'\<rparr>) q0 = Some b0"
      show "keysWhere (holdsAssigned (pod_IP b0)) (eniIPPools (ds\<lparr>assigned := assigned ds + (if inc then 1 else 0), eniIPPools := es', podsIP := ?m'\<rparr>)) \<noteq> {}"
      proof (cases "q0 = ?q")
        case True
        with q0 new show ?thesis by auto
      next
        case False
        with q0 have "podsIP ds q0 = Some b0" by simp
        with unique_inv_parts(5) [OF J] have "keysWhere (holdsAssigned (pod_IP b0)) (eniIPPools ds) \<noteq> {}"
          by (simp add: bindings_held_def)
        with grow [of "pod_IP b0"] show ?thesis by auto
      qed
    qed
    moreover have "bindings_inj ?m'"
      unfolding bindings_inj_def
    proof (intro allI impI)
      fix q1 q2 b1 b2
      assume a: "?m' q1 = Some b1 \<and> ?m' q2 = Some b2 \<and> pod_IP b1 = pod_IP b2"
      have clash: False if "podsIP ds q0 = Some b0" "pod_IP b0 = a" for q0 b0
        using bound_address_assigned [OF J that(1) h(1)] g(1) that(2) g(3) ka(1) free by simp
      show "q1 = q2"
      proof (cases "q1 = ?q")
        case True
        show ?thesis
        proof (cases "q2 = ?q")
          case True with \<open>q1 = ?q\<close> show ?thesis by simp
        next
          case False
          with a True have "podsIP ds q2 = Some b2" "pod_IP b2 = a" by auto
          from clash [OF this] show ?thesis ..
        qed
      next
        case False
        show ?thesis
        proof (cases "q2 = ?q")
          case True
          with a False have "podsIP ds q1 = Some b1" "pod_IP b1 = a" by auto
          from clash [OF this] show ?thesis ..
        next
          case q2: False
          with a False have "podsIP ds q1 = Some b1" "podsIP ds q2 = Some b2" "pod_IP b1 = pod_IP b2" by auto
          with unique_inv_parts(6) [OF J] show ?thesis unfolding bindings_inj_def by blast
        qed
      qed
    qed
    ultimately show ?thesis unfolding res unique_inv_def by simp
  qed
qed

lemma release_same_ips:
  assumes "map_of (IPv4Addresses e) ip = Some a"
  shows "holdsIP ip' (releaseOn now ip a e) = holdsIP ip' e"
  using assms by (intro holdsIP_same_keys) (simp add: releaseOn_def update_keys)

lemma release_other_assigned:
  "ip' \<noteq> ip \<Longrightarrow> holdsAssigned ip' (releaseOn now ip a e) = holdsAssigned ip' e"
  by (simp add: holdsAssigned_def releaseOn_def update_conv')

lemma keysWhere_replace:
  "P e' = P e \<Longrightarrow> keysWhere P (pre @ (k, e') # post) = keysWhere P (pre @ (k, e) # post)"
  by (simp add: keysWhere_simps)

lemma unique_inv_unassign:
  assumes J: "unique_inv ds"
  shows "unique_inv (snd (UnAssignPodIPv4Address now pod ds))"
proof (cases "podsIP ds (NewPodKey pod)")
  case None
  with J show ?thesis by (simp add: UnAssignPodIPv4Address_def)
next
  case (Some b)
  note bq = this
  show ?thesis
  proof (cases "unassignENI now (pod_IP b) (eniIPPools ds)")
    case None
    with bq J show ?thesis by (simp add: UnAssignPodIPv4Address_def)
  next
    case (Some r)
    obtain es' r' where r: "r = (es', r')" by (cases r)
    let ?q = "NewPodKey pod"
    let ?ip = "pod_IP b"
    let ?m' = "(podsIP ds)(?q := None)"
    have res: "snd (UnAssignPodIPv4Address now pod ds) =
        ds\<lparr>assigned := assigned ds - 1, eniIPPools := es', podsIP := ?m'\<rparr>"
      using bq Some r by (simp add: UnAssignPodIPv4Address_def split: prod.splits)
    from unassignENI_Some [OF Some [unfolded r]] obtain pre k e post a where
      h: "eniIPPools ds = pre @ (k, e) # post" "map_of (IPv4Addresses e) ?ip = Some a"
        "es' = pre @ (k, releaseOn now ?ip a e) # post" by blast
    have same: "keysWhere (holdsIP ip) es' = keysWhere (holdsIP ip) (eniIPPools ds)" for ip
      unfolding h(1) h(3) by (rule keysWhere_replace) (rule release_same_ips [OF h(2)])
    have other: "keysWhere (holdsAssigned ip) es' = keysWhere (holdsAssigned ip) (eniIPPools ds)"
      if "ip \<noteq> ?ip" for ip
      unfolding h(1) h(3) by (rule keysWhere_replace) (rule release_other_assigned [OF that])
    have "wf_ds (snd (UnAssignPodIPv4Address now pod ds))"
      using unique_inv_parts(1) [OF J] by (rule wf_UnAssignPodIPv4Address)
    moreover have "counters_ok (snd (UnAssignPodIPv4Address now pod ds))"
      using unique_inv_parts(2) [OF J] by (rule counters_UnAssignPodIPv4Address)
    moreover have "unique_ips es'"
      using unique_inv_parts(3) [OF J] same by (auto intro: unique_ips_mono)
    moreover have "no_empty_ip es'"
      using unique_inv_parts(4) [OF J] same by (simp add: no_empty_ip_def)
    moreover have "bindings_held (ds\<lparr>assigned := assigned ds - 1, eniIPPools := es', podsIP := ?m'\<rparr>)"
      unfolding bindings_held_def
    proof (intro allI impI)
      fix q0 b0
      assume "podsIP (ds\<lparr>assigned := assigned ds - 1, eniIPPools := es', podsIP := ?m'\<rparr>) q0 = Some b0"
      then have q0: "q0 \<noteq> ?q" "podsIP ds q0 = Some b0" by (auto split: if_splits)
      with bq unique_inv_parts(6) [OF J] have "pod_IP b0 \<noteq> ?ip" unfolding bindings_inj_def by blast
      from other [OF this] q0(2) unique_inv_parts(5) [OF J]
      show "keysWhere (holdsAssigned (pod_IP b0)) (eniIPPools (ds\<lparr>assigned := assigned ds - 1, eniIPPools := es', podsIP := ?m'\<rparr>)) \<noteq> {}"
        by (simp add: bindings_held_def)
    qed
    moreover have "bindings_inj ?m'"
      using unique_inv_parts(6) [OF J] unfolding bindings_inj_def
      by (auto split: if_splits)
    ultimately show ?thesis unfolding res unique_inv_def by simp
  qed
qed

lemma none_assigned:
  assumes "assignedOn d = 0" shows "\<not> holdsAssigned ip d"
proof
  assume "holdsAssigned ip d"
  then obtain y where "map_of (IPv4Addresses d) ip = Some y" "Assigned y"
    by (auto simp: holdsAssigned_def split: option.splits)
  then have "(ip, y) \<in> set (filter (\<lambda>(ip, a). Assigned a) (IPv4Addresses d))"
    by (auto dest: map_of_SomeD)
  then have "filter (\<lambda>(ip, a). Assigned a) (IPv4Addresses d) \<noteq> []"
    by (metis empty_iff empty_set)
  with assms show False by (simp add: assignedOn_def)
qed

lemma unique_inv_free:
  assumes J: "unique_inv ds"
  shows "unique_inv (snd (FreeENI now ds))"
proof (cases "fst (FreeENI now ds)")
  case (Inl err)
  then have "snd (FreeENI now ds) = ds" by (auto simp: FreeENI_def split: option.splits)
  with J show ?thesis by simp
next
  case (Inr i)
  then have "FreeENI now ds = (Inr i, snd (FreeENI now ds))" by (metis prod.collapse)
  from FreeENI_Some [OF unique_inv_parts(1) [OF J] this] obtain pre d post where
    h: "eniIPPools ds = pre @ (i, d) # post" "deletable now d"
     "snd (FreeENI now ds) = ds\<lparr>total_cnt := total_cnt ds - int (length (IPv4Addresses d)),
              assigned := assigned ds, eniIPPools := pre @ post\<rparr>" by blast
  from unique_inv_parts(2) [OF J] h(1,2) have "assignedOn d = 0"
    by (simp add: counters_ok_def counted_pair deletable_def)
  then have na: "\<not> holdsAssigned ip d" for ip by (rule none_assigned)
  have sub: "keysWhere P (pre @ post) \<subseteq> keysWhere P (eniIPPools ds)" for P
    unfolding h(1) by (auto simp: keysWhere_simps)
  have keep: "keysWhere (holdsAssigned ip) (pre @ post) = keysWhere (holdsAssigned ip) (eniIPPools ds)" for ip
    unfolding h(1) using na [of ip] by (simp add: keysWhere_simps)
  have "wf_ds (snd (FreeENI now ds))" using unique_inv_parts(1) [OF J] by (rule wf_FreeENI)
  moreover have "counters_ok (snd (FreeENI now ds))"
    using unique_inv_parts(1,2) [OF J] by (rule counters_FreeENI)
  moreover have "unique_ips (pre @ post)"
    using unique_inv_parts(3) [OF J] sub by (rule unique_ips_mono)
  moreover have "no_empty_ip (pre @ post)"
    using unique_inv_parts(4) [OF J] sub by (rule no_empty_ip_mono)
  moreover have "bindings_held (snd (FreeENI now ds))"
    using unique_inv_parts(5) [OF J] unfolding h(3) bindings_held_def by (simp add: keep)
  moreover have "bindings_inj (podsIP (snd (FreeENI now ds)))"
    using unique_inv_parts(6) [OF J] unfolding h(3) by simp
  ultimately show ?thesis unfolding unique_inv_def h(3) by simp
qed

lemma unique_inv_AddENI:
  assumes J: "unique_inv ds"
  shows "unique_inv (snd (AddENI now eniID dev prim ds))"
proof (cases "map_of (eniIPPools ds) eniID")
  case (Some e)
  with J show ?thesis by (simp add: AddENI_def)
next
  case None
  let ?new = "\<lparr>createTime = now, lastUnAssignedTime = zeroTime, IsPrimary = prim,
                eni_id = eniID, DeviceNumber = dev, AssignedIPv4Addresses = 0,
                IPv4Addresses = []\<rparr>"
  have res: "snd (AddENI now eniID dev prim ds) = ds\<lparr>eniIPPools := eniIPPools ds @ [(eniID, ?new)]\<rparr>"
    using None by (simp add: AddENI_def update_fresh)
  have same: "keysWhere (holdsIP ip) (eniIPPools ds @ [(eniID, ?new)]) = keysWhere (holdsIP ip) (eniIPPools ds)" for ip
    by (simp add: keysWhere_simps holdsIP_def)
  have sameA: "keysWhere (holdsAssigned ip) (eniIPPools ds @ [(eniID, ?new)]) = keysWhere (holdsAssigned ip) (eniIPPools ds)" for ip
    by (simp add: keysWhere_simps holdsAssigned_def)
  have "wf_ds (snd (AddENI now eniID dev prim ds))" using unique_inv_parts(1) [OF J] by (rule wf_AddENI)
  moreover have "counters_ok (snd (AddENI now eniID dev prim ds))"
    using unique_inv_parts(2) [OF J] by (rule counters_AddENI)
  moreover have "unique_ips (eniIPPools ds @ [(eniID, ?new)])"
    using unique_inv_parts(3) [OF J] same by (auto intro: unique_ips_mono)
  moreover have "no_empty_ip (eniIPPools ds @ [(eniID, ?new)])"
    using unique_inv_parts(4) [OF J] same by (simp add: no_empty_ip_def)
  moreover have "bindings_held (snd (AddENI now eniID dev prim ds))"
    using unique_inv_parts(5) [OF J] unfolding res bindings_held_def by (simp add: sameA)
  moreover have "bindings_inj (podsIP (snd (AddENI now eniID dev prim ds)))"
    using unique_inv_parts(6) [OF J] unfolding res by simp
  ultimately show ?thesis unfolding unique_inv_def res by simp
qed

lemma append_keeps_assigned:
  "holdsAssigned ip e \<Longrightarrow> holdsAssigned ip (e\<lparr>IPv4Addresses := IPv4Addresses e @ [p]\<rparr>)"
  by (auto simp: holdsAssigned_def map_add_def split: option.splits)

lemma append_ips:
  "holdsIP ip (e\<lparr>IPv4Addresses := IPv4Addresses e @ [(ipv4, a)]\<rparr>) \<longleftrightarrow> holdsIP ip e \<or> ip = ipv4"
  by (auto simp: holdsIP_keys)

lemma unique_inv_AddENIIPv4Address:
  assumes J: "unique_inv ds" and ne: "ipv4 \<noteq> []"
    and fresh: "\<not> list_ex (holdsIP ipv4) (map snd (eniIPPools ds))"
  shows "unique_inv (snd (AddENIIPv4Address eniID ipv4 ds))"
proof (cases "map_of (eniIPPools ds) eniID")
  case None
  with J show ?thesis by (simp add: AddENIIPv4Address_def)
next
  case (Some cur)
  note cur = this
  show ?thesis
  proof (cases "map_of (IPv4Addresses cur) ipv4")
    case (Some a)
    with cur J show ?thesis by (simp add: AddENIIPv4Address_def)
  next
    case None
    let ?a = "\<lparr>Assigned = False, address = ipv4, unAssignedTime = zeroTime\<rparr>"
    let ?cur' = "cur\<lparr>IPv4Addresses := IPv4Addresses cur @ [(ipv4, ?a)]\<rparr>"
    from map_of_split [OF cur] obtain pre post where
      sp: "eniIPPools ds = pre @ (eniID, cur) # post" "eniID \<notin> fst ` set pre" by blast
    have res: "snd (AddENIIPv4Address eniID ipv4 ds) =
        ds\<lparr>total_cnt := total_cnt ds + 1, eniIPPools := pre @ (eniID, ?cur') # post\<rparr>"
      using cur None sp by (simp add: AddENIIPv4Address_def update_fresh update_split)
    from fresh have nobody: "keysWhere (holdsIP ipv4) (eniIPPools ds) = {}"
      by (auto simp: keysWhere_def list_ex_iff)
    have owners: "keysWhere (holdsIP ip) (pre @ (eniID, ?cur') # post)
        \<subseteq> keysWhere (holdsIP ip) (eniIPPools ds) \<union> (if ip = ipv4 then {eniID} else {})" for ip
      unfolding sp(1) by (auto simp: keysWhere_simps append_ips split: if_splits)
    have grow: "keysWhere (holdsAssigned ip) (eniIPPools ds)
        \<subseteq> keysWhere (holdsAssigned ip) (pre @ (eniID, ?cur') # post)" for ip
      unfolding sp(1) by (rule assigned_owners_grow) (rule append_keeps_assigned)
    have "wf_ds (snd (AddENIIPv4Address eniID ipv4 ds))"
      using unique_inv_parts(1) [OF J] by (rule wf_AddENIIPv4Address)
    moreover have "counters_ok (snd (AddENIIPv4Address eniID ipv4 ds))"
      using unique_inv_parts(2) [OF J] by (rule counters_AddENIIPv4Address)
    moreover have "unique_ips (pre @ (eniID, ?cur') # post)"
      unfolding unique_ips_def
    proof (intro allI ballI)
      fix ip k k'
      assume k: "k \<in> keysWhere (holdsIP ip) (pre @ (eniID, ?cur') # post)"
        and k': "k' \<in> keysWhere (holdsIP ip) (pre @ (eniID, ?cur') # post)"
      show "k = k'"
      proof (cases "ip = ipv4")
        case True
        with owners [of ip] nobody k k' show ?thesis by auto
      next
        case False
        with owners [of ip] k k' have "k \<in> keysWhere (holdsIP ip) (eniIPPools ds)"
          "k' \<in> keysWhere (holdsIP ip) (eniIPPools ds)" by auto
        with unique_inv_parts(3) [OF J] show ?thesis unfolding unique_ips_def by blast
      qed
    qed
    moreover have "no_empty_ip (pre @ (eniID, ?cur') # post)"
      using unique_inv_parts(4) [OF J] owners [of "[]"] ne unfolding no_empty_ip_def by auto
    moreover have "bindings_held (snd (AddENIIPv4Address eniID ipv4 ds))"
      unfolding res bindings_held_def
    proof (intro allI impI)
      fix q b
      assume "podsIP (ds\<lparr>total_cnt := total_cnt ds + 1, eniIPPools := pre @ (eniID, ?cur') # post\<rparr>) q = Some b"
      then have "podsIP ds q = Some b" by simp
      with unique_inv_parts(5) [OF J] have "keysWhere (holdsAssigned (pod_IP b)) (eniIPPools ds) \<noteq> {}"
        by (simp add: bindings_held_def)
      with grow [of "pod_IP b"]
      show "keysWhere (holdsAssigned (pod_IP b)) (eniIPPools (ds\<lparr>total_cnt := total_cnt ds + 1, eniIPPools := pre @ (eniID, ?cur') # post\<rparr>)) \<noteq> {}"
        by auto
    qed
    moreover have "bindings_inj (podsIP (snd (AddENIIPv4Address eniID ipv4 ds)))"
      using unique_inv_parts(6) [OF J] unfolding res by simp
    ultimately show ?thesis unfolding unique_inv_def res by simp
  qed
qed

lemma unique_inv_reorder:
  assumes r: "reorder ds ds'" and J: "unique_inv ds"
  shows "unique_inv ds'"
  using r
proof cases
  case (enis enis')
  from mset_eq_setD [OF enis(2)] have "keysWhere P enis' = keysWhere P (eniIPPools ds)" for P
    by (rule keysWhere_set)
  with J wf_reorder [OF r] counters_reorder [OF r] show ?thesis
    unfolding enis(1) unique_inv_def unique_ips_def no_empty_ip_def bindings_held_def by simp
next
  case (addrs pre k e post as')
  from unique_inv_parts(1) [OF J] addrs(2) have w: "wf_enis (pre @ (k, e) # post)" by (simp add: wf_ds_enis)
  from wf_enis_mid [OF w] have we: "wf_addrs (IPv4Addresses e)" by simp
  with wf_addrs_mset [OF addrs(3)] have we': "wf_addrs as'" by simp
  from we we' mset_eq_setD [OF addrs(3)] have m: "map_of as' = map_of (IPv4Addresses e)"
    by (simp add: wf_addrs_def map_of_inject_set)
  have sameP: "keysWhere (holdsIP ip) (pre @ (k, e\<lparr>IPv4Addresses := as'\<rparr>) # post)
      = keysWhere (holdsIP ip) (eniIPPools ds)" for ip
    unfolding addrs(2) by (rule keysWhere_replace) (simp add: holdsIP_def m)
  have sameA: "keysWhere (holdsAssigned ip) (pre @ (k, e\<lparr>IPv4Addresses := as'\<rparr>) # post)
      = keysWhere (holdsAssigned ip) (eniIPPools ds)" for ip
    unfolding addrs(2) by (rule keysWhere_replace) (simp add: holdsAssigned_def m)
  from J wf_reorder [OF r] counters_reorder [OF r] show ?thesis
    unfolding addrs(1) unique_inv_def unique_ips_def no_empty_ip_def bindings_held_def
    by (simp add: sameP sameA)
qed

lemma reachable_unique_inv: "reachable_unique ds \<Longrightarrow> unique_inv ds"
proof (induction rule: reachable_unique.induct)
  case new
  show ?case
    by (simp add: unique_inv_def NewDataStore_def wf_ds_def counters_ok_def counter_simps
        unique_ips_def no_empty_ip_def bindings_held_def bindings_inj_def keysWhere_simps)
next
  case (add_eni ds now eniID deviceNumber isPrimary)
  then show ?case by (simp add: unique_inv_AddENI)
next
  case (add_ip ds ipv4 eniID)
  then show ?case by (simp add: unique_inv_AddENIIPv4Address)
next
  case (assign ds k8sPod)
  then show ?case by (simp add: unique_inv_assign)
next
  case (unassign ds now k8sPod)
  then show ?case by (simp add: unique_inv_unassign)
next
  case (free_eni ds now)
  then show ?case by (simp add: unique_inv_free)
next
  case (reorder ds ds')
  then show ?case by (simp add: unique_inv_reorder)
qed

lemma filter_same_key:
  "distinct (map fst es) \<Longrightarrow> (\<And>x y. x \<in> set es \<Longrightarrow> y \<in> set es \<Longrightarrow> P x \<Longrightarrow> P y \<Longrightarrow> fst x = fst y) \<Longrightarrow>
   length (filter P es) \<le> 1"
proof (induction es)
  case Nil then show ?case by simp
next
  case (Cons x es)
  from Cons.prems have ih: "length (filter P es) \<le> 1" by (intro Cons.IH) auto
  show ?case
  proof (cases "P x")
    case False with ih show ?thesis by simp
  next
    case True
    have "filter P es = []"
    proof (rule ccontr)
      assume "filter P es \<noteq> []"
      then obtain y where y: "y \<in> set es" "P y" by (auto simp: filter_empty_conv)
      with Cons.prems(2) [of x y] True have "fst x = fst y" by simp
      with y(1) Cons.prems(1) show False by (auto simp: image_iff)
    qed
    with True show ?thesis by simp
  qed
qed

lemma unique_inv_binding_ok:
  assumes J: "unique_inv ds" and b: "podsIP ds q = Some b"
  shows "binding_ok (eniIPPools ds) (pod_IP b)"
proof -
  let ?ip = "pod_IP b"
  let ?es = "eniIPPools ds"
  from unique_inv_parts(5) [OF J] b obtain x where
    x: "x \<in> set ?es" "holdsAssigned ?ip (snd x)"
    unfolding bindings_held_def keysWhere_def by blast
  then have xin: "x \<in> set (holders ?ip ?es)"
    by (auto simp: holders_def dest: holdsAssigned_holdsIP)
  have "length (holders ?ip ?es) \<le> 1"
    unfolding holders_def
  proof (rule filter_same_key)
    from unique_inv_parts(1) [OF J] show "distinct (map fst ?es)" by (simp add: wf_ds_def)
  next
    fix x y
    assume "x \<in> set ?es" "y \<in> set ?es" "case x of (k, e) \<Rightarrow> holdsIP ?ip e"
      "case y of (k, e) \<Rightarrow> holdsIP ?ip e"
    then have "fst x \<in> keysWhere (holdsIP ?ip) ?es" "fst y \<in> keysWhere (holdsIP ?ip) ?es"
      by (auto simp: keysWhere_def)
    with unique_inv_parts(3) [OF J] show "fst x = fst y" unfolding unique_ips_def by blast
  qed
  with xin have "holders ?ip ?es = [x]"
    by (cases "holders ?ip ?es") auto
  with x(2) show ?thesis by (cases x) (simp add: binding_ok_def)
qed

lemma reorder_frame:
  "reorder ds ds' \<Longrightarrow> total_cnt ds' = total_cnt ds \<and> assigned ds' = assigned ds \<and> podsIP ds' = podsIP ds"
  by (cases rule: reorder.cases) auto

lemma assign_frame:
  assumes "AssignPodIPv4Address pod ds = (Inr r, ds1)"
  shows "total_cnt ds1 = total_cnt ds \<and>
     dom (podsIP ds1) = insert (NewPodKey pod) (dom (podsIP ds)) \<and>
     assigned ds1 \<le> assigned ds + (if NewPodKey pod \<in> dom (podsIP ds) then 0 else 1)"
proof (cases "podsIP ds (NewPodKey pod)")
  case (Some b)
  with assms have "ds1 = ds" by (auto simp: AssignPodIPv4Address_def split: if_splits)
  with Some show ?thesis by auto
next
  case None
  with assms obtain es a dev inc where
    "ds1 = ds\<lparr>assigned := assigned ds + (if inc then 1 else 0), eniIPPools := es,
       podsIP := (podsIP ds)(NewPodKey pod \<mapsto> \<lparr>pod_IP = a, pod_DeviceNumber = dev\<rparr>)\<rparr>"
    by (auto simp: AssignPodIPv4Address_def assignPodIPv4AddressUnsafe_def split: option.splits)
  with None show ?thesis by auto
qed

lemma unassign_frame:
  assumes "UnAssignPodIPv4Address now pod ds = (Inr r, ds1)"
  shows "total_cnt ds1 = total_cnt ds \<and> assigned ds1 = assigned ds - 1"
  using assms by (auto simp: UnAssignPodIPv4Address_def split: option.splits)

lemma sumAssigned_nonneg: "list_all counted es \<Longrightarrow> 0 \<le> sumAssigned es"
  by (induction es) (auto simp: counter_simps)

lemma counters_ok_nonneg: "counters_ok ds \<Longrightarrow> 0 \<le> assigned ds"
  by (simp add: counters_ok_def sumAssigned_nonneg)

lemma counters_ok_result:
  "counters_ok ds \<Longrightarrow> AssignPodIPv4Address pod ds = (r, ds1) \<Longrightarrow> counters_ok ds1"
  "counters_ok ds \<Longrightarrow> UnAssignPodIPv4Address now pod ds = (r, ds1) \<Longrightarrow> counters_ok ds1"
  using counters_AssignPodIPv4Address [of ds pod] counters_UnAssignPodIPv4Address [of ds now pod]
  by auto

lemma assign_run_bound:
  "assign_run ds pods ds' \<Longrightarrow> counters_ok ds \<Longrightarrow>
   counters_ok ds' \<and> total_cnt ds' = total_cnt ds \<and>
   assigned ds' \<le> assigned ds + int (card (NewPodKey ` set pods - dom (podsIP ds)))"
proof (induction rule: assign_run.induct)
  case (stop ds)
  then show ?case by simp
next
  case (step pod ds r ds1 pods ds2)
  let ?q = "NewPodKey pod"
  let ?K = "NewPodKey ` set pods"
  from counters_ok_result(1) [OF step.prems step.hyps(1)] have c1: "counters_ok ds1" .
  from step.IH [OF c1] have ih: "counters_ok ds2" "total_cnt ds2 = total_cnt ds1"
    "assigned ds2 \<le> assigned ds1 + int (card (?K - dom (podsIP ds1)))" by simp_all
  from assign_frame [OF step.hyps(1)] have f: "total_cnt ds1 = total_cnt ds"
    "dom (podsIP ds1) = insert ?q (dom (podsIP ds))"
    "assigned ds1 \<le> assigned ds + (if ?q \<in> dom (podsIP ds) then 0 else 1)" by simp_all
  have fin: "finite (NewPodKey ` set (pod # pods) - dom (podsIP ds))" by simp
  have "assigned ds1 + int (card (?K - dom (podsIP ds1)))
      \<le> assigned ds + int (card (NewPodKey ` set (pod # pods) - dom (podsIP ds)))"
  proof (cases "?q \<in> dom (podsIP ds)")
    case True
    with f(2) have "?K - dom (podsIP ds1) \<subseteq> NewPodKey ` set (pod # pods) - dom (podsIP ds)" by auto
    from card_mono [OF fin this] f(3) True show ?thesis by simp
  next
    case False
    with f(2) have "NewPodKey ` set (pod # pods) - dom (podsIP ds) = insert ?q (?K - dom (podsIP ds1))"
      by auto
    moreover have "?q \<notin> ?K - dom (podsIP ds1)" using f(2) by simp
    moreover have "finite (?K - dom (podsIP ds1))" by simp
    ultimately have "card (NewPodKey ` set (pod # pods) - dom (podsIP ds)) = Suc (card (?K - dom (podsIP ds1)))"
      by simp
    with f(3) False show ?thesis by simp
  qed
  with ih f show ?case by simp
next
  case (shuffle ds ds1 pods ds2)
  from counters_reorder [OF shuffle.hyps(1) shuffle.prems] have "counters_ok ds1" .
  from shuffle.IH [OF this] reorder_frame [OF shuffle.hyps(1)] show ?case by simp
qed

lemma release_run_count:
  "release_run ds pods ds' \<Longrightarrow> counters_ok ds \<Longrightarrow>
   counters_ok ds' \<and> total_cnt ds' = total_cnt ds \<and> assigned ds' = assigned ds - int (length pods)"
proof (induction rule: release_run.induct)
  case (stop ds)
  then show ?case by simp
next
  case (step now pod ds r ds1 pods ds2)
  from counters_ok_result(2) [OF step.prems step.hyps(1)] have "counters_ok ds1" .
  from step.IH [OF this] unassign_frame [OF step.hyps(1)] show ?case by simp
next
  case (shuffle ds ds1 pods ds2)
  from counters_reorder [OF shuffle.hyps(1) shuffle.prems] have "counters_ok ds1" .
  from shuffle.IH [OF this] reorder_frame [OF shuffle.hyps(1)] show ?case by simp
qed

lemma release_undoes_assign:
  assumes c: "counters_ok ds0" and z: "assigned ds0 = 0"
    and a: "assign_run ds0 pods ds1" and r: "release_run ds1 rels ds2"
    and k: "NewPodKey ` set rels = NewPodKey ` set pods"
  shows "assigned ds2 = 0 \<and> total_cnt ds2 = total_cnt ds0"
proof -
  from assign_run_bound [OF a c] z have a1: "counters_ok ds1" "total_cnt ds1 = total_cnt ds0"
    "assigned ds1 \<le> int (card (NewPodKey ` set pods - dom (podsIP ds0)))" by simp_all
  from release_run_count [OF r a1(1)] have r1: "counters_ok ds2" "total_cnt ds2 = total_cnt ds1"
    "assigned ds2 = assigned ds1 - int (length rels)" by simp_all
  have "card (NewPodKey ` set pods - dom (podsIP ds0)) \<le> card (NewPodKey ` set pods)"
    by (intro card_mono) auto
  also have "\<dots> = card (NewPodKey ` set rels)" by (simp add: k)
  also have "\<dots> \<le> card (set rels)" by (intro card_image_le) simp
  also have "\<dots> \<le> length rels" by (rule card_length)
  finally have "card (NewPodKey ` set pods - dom (podsIP ds0)) \<le> length rels" .
  with a1(3) have "assigned ds1 \<le> int (length rels)" by simp
  moreover from counters_ok_nonneg [OF r1(1)] r1(3) have "int (length rels) \<le> assigned ds1" by simp
  ultimately show ?thesis using r1 a1 by simp
qed

lemma s1_pool_reachable: "reachable s1_pool"
  unfolding s1_pool_def by (intro reachable.add_ip reachable.add_eni reachable.new)

lemma s1_bound_reachable: "reachable s1_bound"
  unfolding s1_bound_def using s1_pool_reachable by (rule reachable.assign)

lemma orphan_pool_reachable: "reachable orphan_pool"
  unfolding orphan_pool_def using s1_bound_reachable
  by (intro reachable.unassign reachable.assign)

lemma orphan_pool_eval:
  "orphan_pool = \<lparr>total_cnt = 1, assigned = 0,
      eniIPPools = [(''eni-a'', \<lparr>createTime = 0, lastUnAssignedTime = 7, IsPrimary = True,
        eni_id = ''eni-a'', DeviceNumber = 1, AssignedIPv4Addresses = 0,
        IPv4Addresses = [(''10.0.0.5'', \<lparr>Assigned = False, address = ''10.0.0.5'', unAssignedTime = 7\<rparr>)]\<rparr>)],
      podsIP = [NewPodKey pod_q \<mapsto> \<lparr>pod_IP = ''10.0.0.5'', pod_DeviceNumber = 1\<rparr>]\<rparr>"
  by (simp add: orphan_pool_def s1_bound_eval AssignPodIPv4Address_def assignPodIPv4AddressUnsafe_def
      UnAssignPodIPv4Address_def pod_q_def pod_p_def NewPodKey_def fun_upd_twist)

lemma reachable_unique_reachable: "reachable_unique ds \<Longrightarrow> reachable ds"
  by (induction rule: reachable_unique.induct) (auto intro: reachable.intros)

lemma s1_bound_reachable_unique: "reachable_unique s1_bound"
  unfolding s1_bound_def s1_pool_def
proof (intro reachable_unique.assign reachable_unique.add_ip reachable_unique.add_eni
    reachable_unique.new)
  show "''10.0.0.5'' \<noteq> []" by simp
  show "\<not> list_ex (holdsIP ''10.0.0.5'') (map snd (eniIPPools (snd (AddENI 0 ''eni-a'' 1 True NewDataStore))))"
    by (simp add: AddENI_def NewDataStore_def holdsIP_def)
  show "IP pod_p = [] \<or>
     podsIP (snd (AddENIIPv4Address ''eni-a'' ''10.0.0.5'' (snd (AddENI 0 ''eni-a'' 1 True NewDataStore))))
       (NewPodKey pod_p) \<noteq> None \<or>
     \<not> list_ex (holdsAssigned (IP pod_p))
     (map snd (eniIPPools (snd (AddENIIPv4Address ''eni-a'' ''10.0.0.5'' (snd (AddENI 0 ''eni-a'' 1 True NewDataStore))))))"
    by (simp add: pod_p_def)
qed

section \<open>Properties checked against the specification\<close>

text \<open>
  C1, as the code has it. In every state reached from the empty datastore by a finite
  sequence of register-ENI, register-IP, assign, release and free-ENI calls, with
  arbitrary arguments, failed calls included and under any iteration order: the sum over
  the ENIs of assigned-on-this-ENI equals the assigned counter, the sum over the ENIs of
  the number of addresses equals the total counter, and on each ENI assigned-on-this-ENI
  is the number of its addresses with assigned = true. When moreover no IP is registered
  that is empty or already held by an ENI, and no pod key without a binding asks for a
  requested-ip that an ENI already holds assigned, every pod binding's IP is an address of
  exactly one ENI, and that address has assigned = true.
\<close>

theorem datastore_invariants:
  "(reachable ds \<longrightarrow>
      sumAssigned (eniIPPools ds) = assigned ds \<and>
      sumAddresses (eniIPPools ds) = total_cnt ds \<and>
      list_all (\<lambda>(k, e). AssignedIPv4Addresses e = assignedOn e) (eniIPPools ds)) \<and>
   (reachable_unique ds \<longrightarrow>
      (\<forall>q b. podsIP ds q = Some b \<longrightarrow> binding_ok (eniIPPools ds) (pod_IP b)))"
proof (intro conjI impI allI)
  assume "reachable ds"
  from reachable_wf_counters [OF this] have c: "counters_ok ds" by simp
  then show "sumAssigned (eniIPPools ds) = assigned ds" "sumAddresses (eniIPPools ds) = total_cnt ds"
    by (simp_all add: counters_ok_def)
  from c have "list_all counted (eniIPPools ds)" by (simp add: counters_ok_def)
  then show "list_all (\<lambda>(k, e). AssignedIPv4Addresses e = assignedOn e) (eniIPPools ds)"
    by (simp add: counted_def)
next
  fix q b
  assume "reachable_unique ds" "podsIP ds q = Some b"
  from unique_inv_binding_ok [OF reachable_unique_inv [OF this(1)] this(2)]
  show "binding_ok (eniIPPools ds) (pod_IP b)" .
qed

text \<open>Scenario S1 after the assign.\<close>

theorem datastore_invariants_witness:
  "reachable s1_bound \<and> sumAssigned (eniIPPools s1_bound) = 1 \<and> assigned s1_bound = 1 \<and>
   sumAddresses (eniIPPools s1_bound) = 1 \<and> total_cnt s1_bound = 1 \<and>
   reachable_unique s1_bound \<and>
   podsIP s1_bound (NewPodKey pod_p) = Some \<lparr>pod_IP = ''10.0.0.5'', pod_DeviceNumber = 1\<rparr> \<and>
   binding_ok (eniIPPools s1_bound) ''10.0.0.5''"
proof -
  have b: "podsIP s1_bound (NewPodKey pod_p) = Some \<lparr>pod_IP = ''10.0.0.5'', pod_DeviceNumber = 1\<rparr>"
    "assigned s1_bound = 1" "total_cnt s1_bound = 1"
    by (simp_all add: s1_bound_eval)
  note t = datastore_invariants [of s1_bound]
  from t s1_bound_reachable b have s: "sumAssigned (eniIPPools s1_bound) = 1"
    "sumAddresses (eniIPPools s1_bound) = 1" by simp_all
  from t s1_bound_reachable_unique
  have "\<forall>q b. podsIP s1_bound q = Some b \<longrightarrow> binding_ok (eniIPPools s1_bound) (pod_IP b)" by simp
  with b(1) have "binding_ok (eniIPPools s1_bound) (pod_IP \<lparr>pod_IP = ''10.0.0.5'', pod_DeviceNumber = 1\<rparr>)"
    by blast
  with s s1_bound_reachable s1_bound_reachable_unique b show ?thesis by simp
qed

text \<open>Without the two rules the statement about bindings fails in reachable states: a
  second pod is bound to the address of the first, which then releases it, and the
  remaining binding points to a free address; or one IP is registered on two ENIs, and a
  binding's IP has two owners.\<close>

theorem datastore_invariants_counterexample:
  "reachable orphan_pool \<and>
   podsIP orphan_pool (NewPodKey pod_q) = Some \<lparr>pod_IP = ''10.0.0.5'', pod_DeviceNumber = 1\<rparr> \<and>
   \<not> binding_ok (eniIPPools orphan_pool) ''10.0.0.5'' \<and>
   reachable dup_pool \<and>
   podsIP dup_pool (NewPodKey pod_p) = Some \<lparr>pod_IP = ''10.0.0.5'', pod_DeviceNumber = 2\<rparr> \<and>
   \<not> binding_ok (eniIPPools dup_pool) ''10.0.0.5''"
  using orphan_pool_reachable dup_pool_reachable
  by (simp add: orphan_pool_eval dup_pool_eval binding_ok_def holders_def holdsIP_def
      holdsAssigned_def)

text \<open>
  C2, as the code has it. When the pod key is already bound to an address \<open>a\<close>: assign
  with a requested-ip that is not empty and equal to \<open>a\<close> succeeds, returns \<open>a\<close> and
  the cached device number, and changes nothing; assign with an empty requested-ip fails
  with InconsistentPodIP and changes nothing, because the code returns the existing
  binding only under the test \<open>ipAddr.IP == k8sPod.IP && k8sPod.IP != ""\<close>. Hence,
  for equal pairs of pod key and
  non-empty requested-ip, a successful assign followed by assign returns the same address
  and device number, and the second call changes nothing.
\<close>

theorem assign_existing_binding:
  "(podsIP ds (NewPodKey pod) = Some b \<and> IP pod = pod_IP b \<and> IP pod \<noteq> [] \<longrightarrow>
      AssignPodIPv4Address pod ds = (Inr (pod_IP b, pod_DeviceNumber b), ds)) \<and>
   (podsIP ds (NewPodKey pod) = Some b \<and> IP pod = [] \<longrightarrow>
      AssignPodIPv4Address pod ds = (Inl InconsistentPodIP, ds)) \<and>
   (IP pod \<noteq> [] \<and> AssignPodIPv4Address pod ds = (Inr r, ds1) \<longrightarrow>
      AssignPodIPv4Address pod ds1 = (Inr r, ds1))"
  using assign_again [of pod ds r ds1] by (auto simp: AssignPodIPv4Address_def)

text \<open>The three parts at the pod and the pool of scenario S1.\<close>

theorem assign_existing_binding_witness:
  "(podsIP s1_bound (NewPodKey (pod_p\<lparr>IP := ''10.0.0.5''\<rparr>)) = Some \<lparr>pod_IP = ''10.0.0.5'', pod_DeviceNumber = 1\<rparr> \<and>
    IP (pod_p\<lparr>IP := ''10.0.0.5''\<rparr>) = pod_IP \<lparr>pod_IP = ''10.0.0.5'', pod_DeviceNumber = 1\<rparr> \<and>
    IP (pod_p\<lparr>IP := ''10.0.0.5''\<rparr>) \<noteq> [] \<and>
    AssignPodIPv4Address (pod_p\<lparr>IP := ''10.0.0.5''\<rparr>) s1_bound = (Inr (''10.0.0.5'', 1), s1_bound)) \<and>
   (podsIP s1_bound (NewPodKey pod_p) = Some \<lparr>pod_IP = ''10.0.0.5'', pod_DeviceNumber = 1\<rparr> \<and>
    IP pod_p = [] \<and>
    AssignPodIPv4Address pod_p s1_bound = (Inl InconsistentPodIP, s1_bound)) \<and>
   (IP (pod_p\<lparr>IP := ''10.0.0.5''\<rparr>) \<noteq> [] \<and>
    AssignPodIPv4Address (pod_p\<lparr>IP := ''10.0.0.5''\<rparr>) s1_pool = (Inr (''10.0.0.5'', 1), s1_bound) \<and>
    AssignPodIPv4Address (pod_p\<lparr>IP := ''10.0.0.5''\<rparr>) s1_bound = (Inr (''10.0.0.5'', 1), s1_bound))"
proof -
  have b1: "podsIP s1_bound (NewPodKey (pod_p\<lparr>IP := ''10.0.0.5''\<rparr>)) = Some \<lparr>pod_IP = ''10.0.0.5'', pod_DeviceNumber = 1\<rparr>"
    and b2: "podsIP s1_bound (NewPodKey pod_p) = Some \<lparr>pod_IP = ''10.0.0.5'', pod_DeviceNumber = 1\<rparr>"
    by (simp_all add: s1_bound_eval NewPodKey_def pod_p_def)
  have ip: "IP (pod_p\<lparr>IP := ''10.0.0.5''\<rparr>) = ''10.0.0.5''" "IP pod_p = []"
    by (simp_all add: pod_p_def)
  have first: "AssignPodIPv4Address (pod_p\<lparr>IP := ''10.0.0.5''\<rparr>) s1_pool = (Inr (''10.0.0.5'', 1), s1_bound)"
    by (simp add: s1_bound_eval s1_pool_eval AssignPodIPv4Address_def assignPodIPv4AddressUnsafe_def
        pod_p_def NewPodKey_def)
  from assign_existing_binding [of s1_bound "pod_p\<lparr>IP := ''10.0.0.5''\<rparr>" "\<lparr>pod_IP = ''10.0.0.5'', pod_DeviceNumber = 1\<rparr>"]
    assign_existing_binding [of s1_bound pod_p "\<lparr>pod_IP = ''10.0.0.5'', pod_DeviceNumber = 1\<rparr>"]
    assign_existing_binding [of s1_pool "pod_p\<lparr>IP := ''10.0.0.5''\<rparr>" _ "(''10.0.0.5'', 1)" s1_bound]
    b1 b2 ip first
  show ?thesis by simp
qed

text \<open>The specification promises success for an empty requested-ip as well. In
  scenario S1 the pod is assigned with an empty requested-ip; the same call once more is
  refused.\<close>

theorem assign_twice_counterexample:
  "podsIP s1_bound (NewPodKey pod_p) = Some \<lparr>pod_IP = ''10.0.0.5'', pod_DeviceNumber = 1\<rparr> \<and>
   IP pod_p = [] \<and>
   AssignPodIPv4Address pod_p s1_pool = (Inr (''10.0.0.5'', 1), s1_bound) \<and>
   AssignPodIPv4Address pod_p s1_bound = (Inl InconsistentPodIP, s1_bound)"
  by (simp add: s1_bound_eval s1_pool_eval AssignPodIPv4Address_def assignPodIPv4AddressUnsafe_def pod_p_def NewPodKey_def)

text \<open>
  C3. In a well-formed datastore and at any instant \<open>now\<close>, the id that free-ENI
  returns is never the id of an ENI that is primary, or that has a positive
  assigned-on-this-ENI counter, or whose age \<open>now - createTime\<close> is below 60 seconds,
  or whose last release is less than 60 seconds before \<open>now\<close>. When every ENI is
  primary, whatever its addresses and its age, free-ENI returns NoDeletable and changes
  nothing.
\<close>

theorem FreeENI_protects:
  "(wf_ds ds \<and> FreeENI now ds = (Inr i, ds') \<and> (k, e) \<in> set (eniIPPools ds) \<and> eni_id e = i \<longrightarrow>
      \<not> IsPrimary e \<and> \<not> AssignedIPv4Addresses e > 0 \<and>
      \<not> now - createTime e < 60 * Second \<and> \<not> now - lastUnAssignedTime e < 60 * Second) \<and>
   (list_all (\<lambda>(k, e). IsPrimary e) (eniIPPools ds) \<longrightarrow> FreeENI now ds = (Inl NoDeletableENI, ds))"
proof (intro conjI impI)
  assume a: "wf_ds ds \<and> FreeENI now ds = (Inr i, ds') \<and> (k, e) \<in> set (eniIPPools ds) \<and> eni_id e = i"
  then have wf: "wf_ds ds" and f: "FreeENI now ds = (Inr i, ds')"
    and m: "(k, e) \<in> set (eniIPPools ds)" and i: "eni_id e = i" by simp_all
  from FreeENI_Some [OF wf f] obtain pre d post where
    h: "eniIPPools ds = pre @ (i, d) # post" "deletable now d" "i \<notin> fst ` set pre" "i \<notin> fst ` set post"
    by blast
  from wf m i have "k = i" by (simp add: wf_ds_enis wf_enis_member)
  with m h have "e = d" by (auto simp: image_iff)
  with h(2) show "\<not> IsPrimary e" "\<not> AssignedIPv4Addresses e > 0"
    "\<not> now - createTime e < 60 * Second" "\<not> now - lastUnAssignedTime e < 60 * Second"
    by (simp_all add: deletable_def)
next
  assume "list_all (\<lambda>(k, e). IsPrimary e) (eniIPPools ds)"
  then have "list_all (\<lambda>e. \<not> deletable now e) (map snd (eniIPPools ds))"
    by (auto simp: list_all_iff deletable_def)
  from deletableENI_None [OF this] show "FreeENI now ds = (Inl NoDeletableENI, ds)"
    by (simp add: FreeENI_def getDeletableENI_def)
qed

text \<open>A secondary ENI registered at 0 is released at 65 seconds; the primary ENI of
  scenario S1 is not released after 10000 seconds.\<close>

theorem FreeENI_protects_witness:
  "(wf_ds s4_pool \<and> FreeENI (65 * Second) s4_pool = (Inr ''eni-b'', NewDataStore) \<and>
    (''eni-b'', snd (hd (eniIPPools s4_pool))) \<in> set (eniIPPools s4_pool) \<and>
    eni_id (snd (hd (eniIPPools s4_pool))) = ''eni-b'' \<and>
    \<not> IsPrimary (snd (hd (eniIPPools s4_pool))) \<and>
    \<not> AssignedIPv4Addresses (snd (hd (eniIPPools s4_pool))) > 0 \<and>
    \<not> 65 * Second - createTime (snd (hd (eniIPPools s4_pool))) < 60 * Second \<and>
    \<not> 65 * Second - lastUnAssignedTime (snd (hd (eniIPPools s4_pool))) < 60 * Second) \<and>
   (list_all (\<lambda>(k, e). IsPrimary e) (eniIPPools s1_pool) \<and>
    FreeENI (10000 * Second) s1_pool = (Inl NoDeletableENI, s1_pool))"
proof -
  have w: "wf_ds s4_pool" by (simp add: s4_pool_eval wf_ds_def wf_eni_def wf_addrs_def)
  have m: "(''eni-b'', snd (hd (eniIPPools s4_pool))) \<in> set (eniIPPools s4_pool)"
    "eni_id (snd (hd (eniIPPools s4_pool))) = ''eni-b''"
    by (simp_all add: s4_pool_eval)
  have p: "list_all (\<lambda>(k, e). IsPrimary e) (eniIPPools s1_pool)" by (simp add: s1_pool_eval)
  from FreeENI_protects [of s4_pool "65 * Second" "''eni-b''" NewDataStore "''eni-b''" "snd (hd (eniIPPools s4_pool))"]
    FreeENI_protects [of s1_pool "10000 * Second"] w m p s4_free
  show ?thesis by simp
qed

text \<open>
  C4, as the code has it. Let \<open>(total, used)\<close> be read from get-stats, let
  current-max-addrs-per-ENI be at least 0 and below \<open>2 ^ 62\<close>, and let \<open>total - used\<close>
  lie in the 64-bit range, so that the difference and the product of the two tests do not
  wrap (the first is zero or the length of a list, the others count map entries). Then
  a tick takes the grow branch exactly when \<open>total - used \<le> current-max-addrs-per-ENI\<close>,
  the shrink branch exactly when \<open>total - used > 2 * current-max-addrs-per-ENI\<close>, and
  does nothing otherwise. With current-max-addrs-per-ENI = 14: total 14 and used 14 grow;
  total 28 and used 10 do nothing; total 28 and used 0 do nothing as well, since 28 is not
  greater than 2 * 14; total 29 and used 0 shrink.
\<close>

theorem pool_thresholds:
  assumes "0 \<le> currentMaxAddrsPerENI c" and "currentMaxAddrsPerENI c < 2 ^ 62"
    and "GetStats (dataStore c) = (total_ips, used)"
    and "- (2 ^ 63) \<le> total_ips - used" and "total_ips - used < 2 ^ 63"
  shows
  "(poolAction_of c = Grow \<longleftrightarrow> total_ips - used \<le> currentMaxAddrsPerENI c) \<and>
   (poolAction_of c = Shrink \<longleftrightarrow> total_ips - used > 2 * currentMaxAddrsPerENI c) \<and>
   (poolAction_of c = Idle \<longleftrightarrow>
      \<not> total_ips - used \<le> currentMaxAddrsPerENI c \<and> \<not> total_ips - used > 2 * currentMaxAddrsPerENI c) \<and>
   (poolAction_of c = Grow \<longrightarrow> updateIPPoolIfRequired cl c = increaseIPPool cl c) \<and>
   (poolAction_of c = Shrink \<longrightarrow> updateIPPoolIfRequired cl c = decreaseIPPool cl c) \<and>
   (poolAction_of c = Idle \<longrightarrow> updateIPPoolIfRequired cl c = (c, [])) \<and>
   (currentMaxAddrsPerENI c = 14 \<and> total_ips = 14 \<and> used = 14 \<longrightarrow> poolAction_of c = Grow) \<and>
   (currentMaxAddrsPerENI c = 14 \<and> total_ips = 28 \<and> used = 0 \<longrightarrow> poolAction_of c = Idle) \<and>
   (currentMaxAddrsPerENI c = 14 \<and> total_ips = 29 \<and> used = 0 \<longrightarrow> poolAction_of c = Shrink) \<and>
   (currentMaxAddrsPerENI c = 14 \<and> total_ips = 28 \<and> used = 10 \<longrightarrow> poolAction_of c = Idle)"
proof -
  from assms(4,5) have d: "wrap64 (total_ips - used) = total_ips - used" by (rule wrap64_id)
  from assms(1,2) have "- (2 ^ 63) \<le> 2 * currentMaxAddrsPerENI c"
    "2 * currentMaxAddrsPerENI c < 2 ^ 63" by simp_all
  then have p: "wrap64 (2 * currentMaxAddrsPerENI c) = 2 * currentMaxAddrsPerENI c"
    by (rule wrap64_id)
  have a: "poolAction_of c =
      (if total_ips - used \<le> currentMaxAddrsPerENI c then Grow
       else if total_ips - used > 2 * currentMaxAddrsPerENI c then Shrink else Idle)"
    using assms(3) by (simp add: poolAction_of_def d p)
  from assms(1) show ?thesis
    unfolding a by (auto simp: updateIPPoolIfRequired_def a)
qed

text \<open>The three outcomes at concrete counters.\<close>

theorem pool_thresholds_witness:
  "0 \<le> currentMaxAddrsPerENI (manager_14 14 14) \<and> currentMaxAddrsPerENI (manager_14 14 14) < 2 ^ 62 \<and>
   GetStats (dataStore (manager_14 14 14)) = (14, 14) \<and>
   - (2 ^ 63) \<le> (14 - 14 :: int) \<and> (14 - 14 :: int) < 2 ^ 63 \<and>
   poolAction_of (manager_14 14 14) = Grow \<and>
   GetStats (dataStore (manager_14 29 0)) = (29, 0) \<and>
   - (2 ^ 63) \<le> (29 - 0 :: int) \<and> (29 - 0 :: int) < 2 ^ 63 \<and>
   poolAction_of (manager_14 29 0) = Shrink \<and>
   GetStats (dataStore (manager_14 28 10)) = (28, 10) \<and>
   - (2 ^ 63) \<le> (28 - 10 :: int) \<and> (28 - 10 :: int) < 2 ^ 63 \<and>
   poolAction_of (manager_14 28 10) = Idle"
proof -
  have h: "0 \<le> currentMaxAddrsPerENI (manager_14 t u)"
    "currentMaxAddrsPerENI (manager_14 t u) < 2 ^ 62"
    "GetStats (dataStore (manager_14 t u)) = (t, u)" for t u
    by (simp_all add: manager_14_def GetStats_def)
  have k: "currentMaxAddrsPerENI (manager_14 t u) = 14" for t u
    by (simp add: manager_14_def)
  have r: "- (2 ^ 63) \<le> (14 - 14 :: int)" "(14 - 14 :: int) < 2 ^ 63"
    "- (2 ^ 63) \<le> (29 - 0 :: int)" "(29 - 0 :: int) < 2 ^ 63"
    "- (2 ^ 63) \<le> (28 - 10 :: int)" "(28 - 10 :: int) < 2 ^ 63"
    by simp_all
  from pool_thresholds [OF h r(1,2)] k have g: "poolAction_of (manager_14 14 14) = Grow" by simp
  from pool_thresholds [OF h r(3,4)] k have s: "poolAction_of (manager_14 29 0) = Shrink" by simp
  from pool_thresholds [OF h r(5,6)] k have i: "poolAction_of (manager_14 28 10) = Idle" by simp
  from g s i h r show ?thesis by simp
qed

text \<open>The third example of scenario S6: total 28 and used 0 do not shrink.\<close>

theorem pool_thresholds_counterexample:
  "currentMaxAddrsPerENI (manager_14 28 0) = 14 \<and> GetStats (dataStore (manager_14 28 0)) = (28, 0) \<and>
   poolAction_of (manager_14 28 0) = Idle \<and> poolAction_of (manager_14 28 0) \<noteq> Shrink"
  by (simp add: manager_14_def GetStats_def poolAction_of_def wrap64_def)

text \<open>
  C5. Release of a pod key without a binding fails with UnknownPod and changes nothing.
  When the key is bound and some ENI holds the binding's address with assigned = true,
  release takes the first such ENI in iteration order: it clears the assigned flag of that
  address, decrements the assigned counter of the datastore and of that ENI by one, sets
  the last-unassigned instant of the address and of the ENI to the current time, deletes
  the binding and returns the address (in a well-formed datastore, the binding's IP)
  with the device number of the ENI. When the key is bound and no ENI holds the address
  assigned, release fails with UnknownPodIP and changes nothing.
\<close>

theorem release_cases:
  "(podsIP ds (NewPodKey pod) = None \<longrightarrow>
      UnAssignPodIPv4Address now pod ds = (Inl ErrUnknownPod, ds)) \<and>
   (podsIP ds (NewPodKey pod) = Some b \<and>
    list_ex (holdsAssigned (pod_IP b)) (map snd (eniIPPools ds)) \<longrightarrow>
      (\<exists>pre k e post a.
         eniIPPools ds = pre @ (k, e) # post \<and>
         list_all (\<lambda>e'. \<not> holdsAssigned (pod_IP b) e') (map snd pre) \<and>
         map_of (IPv4Addresses e) (pod_IP b) = Some a \<and> Assigned a \<and>
         (wf_ds ds \<longrightarrow> address a = pod_IP b) \<and>
         UnAssignPodIPv4Address now pod ds =
           (Inr (address a, DeviceNumber e),
            ds\<lparr>assigned := assigned ds - 1,
               eniIPPools :=
                 pre @ (k, e\<lparr>lastUnAssignedTime := now,
                             AssignedIPv4Addresses := AssignedIPv4Addresses e - 1,
                             IPv4Addresses :=
                               AList.update (pod_IP b)
                                 (a\<lparr>Assigned := False, unAssignedTime := now\<rparr>)
                                 (IPv4Addresses e)\<rparr>) # post,
               podsIP := (podsIP ds)(NewPodKey pod := None)\<rparr>))) \<and>
   (podsIP ds (NewPodKey pod) = Some b \<and>
    \<not> list_ex (holdsAssigned (pod_IP b)) (map snd (eniIPPools ds)) \<longrightarrow>
      UnAssignPodIPv4Address now pod ds = (Inl ErrUnknownPodIP, ds))"
proof (intro conjI impI)
  assume "podsIP ds (NewPodKey pod) = None"
  then show "UnAssignPodIPv4Address now pod ds = (Inl ErrUnknownPod, ds)"
    by (simp add: UnAssignPodIPv4Address_def)
next
  assume a: "podsIP ds (NewPodKey pod) = Some b \<and>
    \<not> list_ex (holdsAssigned (pod_IP b)) (map snd (eniIPPools ds))"
  then have "list_all (\<lambda>e'. \<not> holdsAssigned (pod_IP b) e') (map snd (eniIPPools ds))"
    by (simp add: list_all_iff list_ex_iff)
  from unassignENI_None [OF this] a
  show "UnAssignPodIPv4Address now pod ds = (Inl ErrUnknownPodIP, ds)"
    by (simp add: UnAssignPodIPv4Address_def)
next
  assume a: "podsIP ds (NewPodKey pod) = Some b \<and>
    list_ex (holdsAssigned (pod_IP b)) (map snd (eniIPPools ds))"
  then have "list_ex (\<lambda>p. holdsAssigned (pod_IP b) (snd p)) (eniIPPools ds)"
    by (simp add: list_ex_iff)
  from first_holder [OF this] obtain pre x post where
    sp: "eniIPPools ds = pre @ x # post" and hx: "holdsAssigned (pod_IP b) (snd x)"
    and np: "list_all (\<lambda>y. \<not> holdsAssigned (pod_IP b) (snd y)) pre" by blast
  obtain k e where x: "x = (k, e)" by (cases x)
  from hx x obtain a where m: "map_of (IPv4Addresses e) (pod_IP b) = Some a" "Assigned a"
    by (auto simp: holdsAssigned_def split: option.splits)
  from np have np': "list_all (\<lambda>e'. \<not> holdsAssigned (pod_IP b) e') (map snd pre)"
    by (simp add: list_all_iff)
  have w: "wf_ds ds \<longrightarrow> address a = pod_IP b"
  proof
    assume "wf_ds ds"
    with sp x have "wf_enis (pre @ (k, e) # post)" by (simp add: wf_ds_enis)
    from wf_enis_mid [OF this] have "wf_addrs (IPv4Addresses e)" by simp
    with map_of_SomeD [OF m(1)] show "address a = pod_IP b"
      by (auto simp: wf_addrs_def list_all_iff)
  qed
  from unassignENI_first [OF sp [unfolded x] np' m, of now] a
  have "UnAssignPodIPv4Address now pod ds =
           (Inr (address a, DeviceNumber e),
            ds\<lparr>assigned := assigned ds - 1,
               eniIPPools :=
                 pre @ (k, e\<lparr>lastUnAssignedTime := now,
                             AssignedIPv4Addresses := AssignedIPv4Addresses e - 1,
                             IPv4Addresses :=
                               AList.update (pod_IP b)
                                 (a\<lparr>Assigned := False, unAssignedTime := now\<rparr>)
                                 (IPv4Addresses e)\<rparr>) # post,
               podsIP := (podsIP ds)(NewPodKey pod := None)\<rparr>)"
    by (simp add: UnAssignPodIPv4Address_def releaseOn_def)
  with sp x np' m w show "\<exists>pre k e post a.
         eniIPPools ds = pre @ (k, e) # post \<and>
         list_all (\<lambda>e'. \<not> holdsAssigned (pod_IP b) e') (map snd pre) \<and>
         map_of (IPv4Addresses e) (pod_IP b) = Some a \<and> Assigned a \<and>
         (wf_ds ds \<longrightarrow> address a = pod_IP b) \<and>
         UnAssignPodIPv4Address now pod ds =
           (Inr (address a, DeviceNumber e),
            ds\<lparr>assigned := assigned ds - 1,
               eniIPPools :=
                 pre @ (k, e\<lparr>lastUnAssignedTime := now,
                             AssignedIPv4Addresses := AssignedIPv4Addresses e - 1,
                             IPv4Addresses :=
                               AList.update (pod_IP b)
                                 (a\<lparr>Assigned := False, unAssignedTime := now\<rparr>)
                                 (IPv4Addresses e)\<rparr>) # post,
               podsIP := (podsIP ds)(NewPodKey pod := None)\<rparr>)"
    by blast
qed

text \<open>The three cases around scenario S1: release before the assign, after it, and with
  the binding kept while the address is free.\<close>

theorem release_cases_witness:
  "(podsIP s1_pool (NewPodKey pod_p) = None \<and>
    UnAssignPodIPv4Address 7 pod_p s1_pool = (Inl ErrUnknownPod, s1_pool)) \<and>
   (podsIP s1_bound (NewPodKey pod_p) = Some \<lparr>pod_IP = ''10.0.0.5'', pod_DeviceNumber = 1\<rparr> \<and>
    list_ex (holdsAssigned ''10.0.0.5'') (map snd (eniIPPools s1_bound)) \<and> wf_ds s1_bound \<and>
    UnAssignPodIPv4Address 7 pod_p s1_bound = (Inr (''10.0.0.5'', 1), s1_released) \<and>
    GetStats s1_released = (1, 0) \<and> podsIP s1_released (NewPodKey pod_p) = None \<and>
    \<not> list_ex (holdsAssigned ''10.0.0.5'') (map snd (eniIPPools s1_released))) \<and>
   (podsIP (s1_pool\<lparr>podsIP := podsIP s1_bound\<rparr>) (NewPodKey pod_p) =
      Some \<lparr>pod_IP = ''10.0.0.5'', pod_DeviceNumber = 1\<rparr> \<and>
    \<not> list_ex (holdsAssigned ''10.0.0.5'') (map snd (eniIPPools (s1_pool\<lparr>podsIP := podsIP s1_bound\<rparr>))) \<and>
    UnAssignPodIPv4Address 7 pod_p (s1_pool\<lparr>podsIP := podsIP s1_bound\<rparr>) =
      (Inl ErrUnknownPodIP, s1_pool\<lparr>podsIP := podsIP s1_bound\<rparr>))"
proof -
  have h1: "podsIP s1_pool (NewPodKey pod_p) = None" by (simp add: s1_pool_eval)
  have h2: "podsIP s1_bound (NewPodKey pod_p) = Some \<lparr>pod_IP = ''10.0.0.5'', pod_DeviceNumber = 1\<rparr>"
    "list_ex (holdsAssigned ''10.0.0.5'') (map snd (eniIPPools s1_bound))" "wf_ds s1_bound"
    by (simp_all add: s1_bound_eval holdsAssigned_def wf_ds_def wf_eni_def wf_addrs_def)
  have h3: "podsIP (s1_pool\<lparr>podsIP := podsIP s1_bound\<rparr>) (NewPodKey pod_p) =
      Some \<lparr>pod_IP = ''10.0.0.5'', pod_DeviceNumber = 1\<rparr>"
    "\<not> list_ex (holdsAssigned ''10.0.0.5'') (map snd (eniIPPools (s1_pool\<lparr>podsIP := podsIP s1_bound\<rparr>)))"
    by (simp_all add: s1_bound_eval s1_pool_eval holdsAssigned_def)
  have r: "UnAssignPodIPv4Address 7 pod_p s1_bound = (Inr (''10.0.0.5'', 1), s1_released)"
    "GetStats s1_released = (1, 0)" "podsIP s1_released (NewPodKey pod_p) = None"
    "\<not> list_ex (holdsAssigned ''10.0.0.5'') (map snd (eniIPPools s1_released))"
    by (simp_all add: s1_released_def s1_released_eval GetStats_def holdsAssigned_def)
  from release_cases [where ds = s1_pool and pod = pod_p and now = 7]
   release_cases [where ds = "s1_pool\<lparr>podsIP := podsIP s1_bound\<rparr>" and pod = pod_p and now = 7
     and b = "\<lparr>pod_IP = ''10.0.0.5'', pod_DeviceNumber = 1\<rparr>"]
   release_cases [where ds = s1_bound and pod = pod_p and now = 7
     and b = "\<lparr>pod_IP = ''10.0.0.5'', pod_DeviceNumber = 1\<rparr>"]
   h1 h2 h3 r
  show ?thesis by simp
qed

text \<open>
  C6. When the pod key is bound to an address \<open>a\<close>, assign with a requested-ip that is
  not empty and differs from \<open>a\<close> fails with InconsistentPodIP, and the datastore after
  the call is the datastore before it: binding, counters, ENIs and addresses.
\<close>

theorem assign_conflicting_ip_rejected:
  "podsIP ds (NewPodKey pod) = Some b \<Longrightarrow> IP pod \<noteq> [] \<Longrightarrow> IP pod \<noteq> pod_IP b \<Longrightarrow>
   AssignPodIPv4Address pod ds = (Inl InconsistentPodIP, ds)"
  by (simp add: AssignPodIPv4Address_def)

text \<open>Scenario S3: the pod of S1 asks for 10.0.0.7.\<close>

theorem assign_conflicting_ip_rejected_witness:
  "podsIP s1_bound (NewPodKey (pod_p\<lparr>IP := ''10.0.0.7''\<rparr>)) = Some \<lparr>pod_IP = ''10.0.0.5'', pod_DeviceNumber = 1\<rparr> \<and>
   IP (pod_p\<lparr>IP := ''10.0.0.7''\<rparr>) \<noteq> [] \<and>
   IP (pod_p\<lparr>IP := ''10.0.0.7''\<rparr>) \<noteq> pod_IP \<lparr>pod_IP = ''10.0.0.5'', pod_DeviceNumber = 1\<rparr> \<and>
   AssignPodIPv4Address (pod_p\<lparr>IP := ''10.0.0.7''\<rparr>) s1_bound = (Inl InconsistentPodIP, s1_bound)"
proof -
  have h: "podsIP s1_bound (NewPodKey (pod_p\<lparr>IP := ''10.0.0.7''\<rparr>)) = Some \<lparr>pod_IP = ''10.0.0.5'', pod_DeviceNumber = 1\<rparr>"
    by (simp add: s1_bound_eval NewPodKey_def pod_p_def)
  from assign_conflicting_ip_rejected [OF h] h show ?thesis by simp
qed

text \<open>
  C7. When free-ENI returns an id in a well-formed datastore, no ENI of the state after
  the call has that id, as key or as field; the total counter has gone down by the number
  of addresses the ENI held; the ENI's assigned-on-this-ENI counter was zero and the
  assigned counter is unchanged.
\<close>

theorem FreeENI_forgets:
  "wf_ds ds \<Longrightarrow> FreeENI now ds = (Inr i, ds') \<Longrightarrow>
   map_of (eniIPPools ds') i = None \<and> list_all (\<lambda>(k, e). eni_id e \<noteq> i) (eniIPPools ds') \<and>
   (\<exists>e. map_of (eniIPPools ds) i = Some e \<and> AssignedIPv4Addresses e = 0 \<and>
        total_cnt ds' = total_cnt ds - int (length (IPv4Addresses e))) \<and>
   assigned ds' = assigned ds"
proof -
  assume wf: "wf_ds ds" and f: "FreeENI now ds = (Inr i, ds')"
  from FreeENI_Some [OF wf f] obtain pre d post where
    h: "eniIPPools ds = pre @ (i, d) # post" "deletable now d" "i \<notin> fst ` set pre" "i \<notin> fst ` set post"
     "ds' = ds\<lparr>total_cnt := total_cnt ds - int (length (IPv4Addresses d)),
              assigned := assigned ds, eniIPPools := pre @ post\<rparr>"
    by blast
  from h(3,4,5) have "map_of (eniIPPools ds') i = None" by (simp add: map_of_eq_None_iff)
  moreover have "list_all (\<lambda>(k, e). eni_id e \<noteq> i) (pre @ post)"
    unfolding list_all_iff
  proof
    fix x assume x: "x \<in> set (pre @ post)"
    obtain k' e' where p: "x = (k', e')" by (cases x)
    from x p h(3,4) have "k' \<noteq> i" by (auto simp: image_iff)
    moreover from x p h(1) have "(k', e') \<in> set (eniIPPools ds)" by auto
    with wf have "eni_id e' = k'" by (simp add: wf_ds_enis wf_enis_member)
    ultimately show "case x of (k, e) \<Rightarrow> eni_id e \<noteq> i" using p by simp
  qed
  moreover from wf_ds_keys [OF wf h(1)] h(2,5) have "map_of (eniIPPools ds) i = Some d \<and> AssignedIPv4Addresses d = 0 \<and>
        total_cnt ds' = total_cnt ds - int (length (IPv4Addresses d))"
    by (simp add: deletable_def)
  ultimately show ?thesis using h(5) by auto
qed

text \<open>A pool of two ENIs at 65 seconds: the secondary ENI with its two free addresses is
  released, the total counter goes from 3 to 1, the assigned counter stays 1, and the
  primary ENI remains.\<close>

theorem FreeENI_forgets_witness:
  "wf_ds two_eni_pool \<and> FreeENI (65 * Second) two_eni_pool = (Inr ''eni-b'', two_eni_freed) \<and>
   GetStats two_eni_pool = (3, 1) \<and> GetStats two_eni_freed = (1, 1) \<and>
   map fst (eniIPPools two_eni_pool) = [''eni-a'', ''eni-b''] \<and>
   map fst (eniIPPools two_eni_freed) = [''eni-a''] \<and>
   map_of (eniIPPools two_eni_freed) ''eni-b'' = None \<and>
   list_all (\<lambda>(k, e). eni_id e \<noteq> ''eni-b'') (eniIPPools two_eni_freed) \<and>
   (\<exists>e. map_of (eniIPPools two_eni_pool) ''eni-b'' = Some e \<and> length (IPv4Addresses e) = 2 \<and>
        AssignedIPv4Addresses e = 0 \<and>
        total_cnt two_eni_freed = total_cnt two_eni_pool - int (length (IPv4Addresses e))) \<and>
   assigned two_eni_freed = assigned two_eni_pool"
proof -
  have w: "wf_ds two_eni_pool"
    by (simp add: two_eni_pool_eval wf_ds_def wf_eni_def wf_addrs_def)
  have f: "FreeENI (65 * Second) two_eni_pool = (Inr ''eni-b'', two_eni_freed)"
    by (simp add: two_eni_freed_def two_eni_free)
  have v: "GetStats two_eni_pool = (3, 1)" "GetStats two_eni_freed = (1, 1)"
    "map fst (eniIPPools two_eni_pool) = [''eni-a'', ''eni-b'']"
    "map fst (eniIPPools two_eni_freed) = [''eni-a'']"
    "length (IPv4Addresses (snd (eniIPPools two_eni_pool ! 1))) = 2"
    "map_of (eniIPPools two_eni_pool) ''eni-b'' = Some (snd (eniIPPools two_eni_pool ! 1))"
    by (simp_all add: two_eni_freed_eval two_eni_pool_eval GetStats_def)
  from FreeENI_forgets [OF w f] w f v show ?thesis by simp
qed

text \<open>
  C8. A grow attempt that is not skipped and whose ENI allocation fails with an error
  containing \<open>AttachmentLimitExceeded\<close> sets max-ENI to the number of ENIs in the
  datastore and stops after that one call to the cloud. A grow attempt made while max-ENI
  is positive and equal to the number of ENIs changes nothing and makes no call to the
  cloud; so, after the limit was recorded over at least one ENI, every later attempt is
  skipped as long as the number of ENIs stays the same. Once the two numbers differ, the
  attempt calls the cloud again.
\<close>

theorem attachment_limit_pins_maxENI:
  "(\<not> (maxENI c > 0 \<and> maxENI c = GetENIs (dataStore c)) \<and> AllocENI_r cl = Inl err \<and>
      strings_Contains err ''AttachmentLimitExceeded'' \<longrightarrow>
      increaseIPPool cl c = (c\<lparr>maxENI := GetENIs (dataStore c)\<rparr>, [CallAllocENI])) \<and>
   (maxENI c > 0 \<and> maxENI c = GetENIs (dataStore c) \<longrightarrow> increaseIPPool cl c = (c, [])) \<and>
   (\<not> (maxENI c > 0 \<and> maxENI c = GetENIs (dataStore c)) \<longrightarrow>
      (\<exists>calls. snd (increaseIPPool cl c) = CallAllocENI # calls)) \<and>
   (\<not> (maxENI c > 0 \<and> maxENI c = GetENIs (dataStore c)) \<and> AllocENI_r cl = Inl err \<and>
      strings_Contains err ''AttachmentLimitExceeded'' \<and> GetENIs (dataStore c) > 0 \<longrightarrow>
      increaseIPPool cl' (fst (increaseIPPool cl c)) = (fst (increaseIPPool cl c), []))"
proof (intro conjI impI)
  assume "\<not> (maxENI c > 0 \<and> maxENI c = GetENIs (dataStore c)) \<and> AllocENI_r cl = Inl err \<and>
      strings_Contains err ''AttachmentLimitExceeded''"
  then show "increaseIPPool cl c = (c\<lparr>maxENI := GetENIs (dataStore c)\<rparr>, [CallAllocENI])"
    by (simp add: increaseIPPool_limit)
next
  assume "maxENI c > 0 \<and> maxENI c = GetENIs (dataStore c)"
  then show "increaseIPPool cl c = (c, [])" by (simp add: increaseIPPool_skip)
next
  assume "\<not> (maxENI c > 0 \<and> maxENI c = GetENIs (dataStore c))"
  then show "\<exists>calls. snd (increaseIPPool cl c) = CallAllocENI # calls"
    by (rule increaseIPPool_calls)
next
  assume a: "\<not> (maxENI c > 0 \<and> maxENI c = GetENIs (dataStore c)) \<and> AllocENI_r cl = Inl err \<and>
      strings_Contains err ''AttachmentLimitExceeded'' \<and> GetENIs (dataStore c) > 0"
  then have "increaseIPPool cl c = (c\<lparr>maxENI := GetENIs (dataStore c)\<rparr>, [CallAllocENI])"
    by (simp add: increaseIPPool_limit)
  then have f: "fst (increaseIPPool cl c) = c\<lparr>maxENI := GetENIs (dataStore c)\<rparr>" by simp
  from a show "increaseIPPool cl' (fst (increaseIPPool cl c)) = (fst (increaseIPPool cl c), [])"
    unfolding f by (simp add: increaseIPPool_skip)
qed

text \<open>The manager over the pool of S1, refused by the cloud, then asked again.\<close>

theorem attachment_limit_pins_maxENI_witness:
  "(\<not> (maxENI manager_s1 > 0 \<and> maxENI manager_s1 = GetENIs (dataStore manager_s1)) \<and>
    AllocENI_r cloud_limit = Inl ''AttachmentLimitExceeded: Interface count 4 exceeds the limit'' \<and>
    strings_Contains ''AttachmentLimitExceeded: Interface count 4 exceeds the limit''
      ''AttachmentLimitExceeded'' \<and>
    GetENIs (dataStore manager_s1) > 0 \<and>
    increaseIPPool cloud_limit manager_s1 = (manager_s1\<lparr>maxENI := 1\<rparr>, [CallAllocENI]) \<and>
    increaseIPPool cloud_limit (manager_s1\<lparr>maxENI := 1\<rparr>) = (manager_s1\<lparr>maxENI := 1\<rparr>, [])) \<and>
   (maxENI (manager_s1\<lparr>maxENI := 1\<rparr>) > 0 \<and>
    maxENI (manager_s1\<lparr>maxENI := 1\<rparr>) = GetENIs (dataStore (manager_s1\<lparr>maxENI := 1\<rparr>)))"
proof -
  have h: "\<not> (maxENI manager_s1 > 0 \<and> maxENI manager_s1 = GetENIs (dataStore manager_s1))"
    "AllocENI_r cloud_limit = Inl ''AttachmentLimitExceeded: Interface count 4 exceeds the limit''"
    "strings_Contains ''AttachmentLimitExceeded: Interface count 4 exceeds the limit''
      ''AttachmentLimitExceeded''"
    "GetENIs (dataStore manager_s1) = 1" "GetENIs (dataStore manager_s1) > 0"
    by (simp_all add: manager_s1_def cloud_limit_def GetENIs_def s1_pool_eval)
  note t = attachment_limit_pins_maxENI [of manager_s1 cloud_limit
      "''AttachmentLimitExceeded: Interface count 4 exceeds the limit''" cloud_limit]
  from t h have a: "increaseIPPool cloud_limit manager_s1 = (manager_s1\<lparr>maxENI := 1\<rparr>, [CallAllocENI])"
    by simp
  from t h have "increaseIPPool cloud_limit (fst (increaseIPPool cloud_limit manager_s1)) =
      (fst (increaseIPPool cloud_limit manager_s1), [])"
    by blast
  then have b: "increaseIPPool cloud_limit (manager_s1\<lparr>maxENI := 1\<rparr>) = (manager_s1\<lparr>maxENI := 1\<rparr>, [])"
    unfolding a by simp
  from a b h show ?thesis by simp
qed

text \<open>
  C9. From a datastore whose counters are consistent and whose assigned counter is zero,
  after any run of successful assigns followed by a run of successful releases that
  releases every pod key that was assigned, the assigned counter is zero again and the
  total counter is what it was. In scenario S1 the assign returns 10.0.0.5 and device
  number 1 with stats (1, 1), and the release returns the same with stats (1, 0).
\<close>

theorem release_undoes_assign_counters:
  "(counters_ok ds0 \<and> assigned ds0 = 0 \<and> assign_run ds0 pods ds1 \<and> release_run ds1 rels ds2 \<and>
    NewPodKey ` set rels = NewPodKey ` set pods \<longrightarrow>
      assigned ds2 = 0 \<and> total_cnt ds2 = total_cnt ds0) \<and>
   AssignPodIPv4Address pod_p s1_pool = (Inr (''10.0.0.5'', 1), s1_bound) \<and>
   GetStats s1_bound = (1, 1) \<and>
   UnAssignPodIPv4Address now pod_p s1_bound =
     (Inr (''10.0.0.5'', 1), snd (UnAssignPodIPv4Address now pod_p s1_bound)) \<and>
   GetStats (snd (UnAssignPodIPv4Address now pod_p s1_bound)) = (1, 0)"
proof (intro conjI impI)
  assume "counters_ok ds0 \<and> assigned ds0 = 0 \<and> assign_run ds0 pods ds1 \<and> release_run ds1 rels ds2 \<and>
    NewPodKey ` set rels = NewPodKey ` set pods"
  then have "assigned ds2 = 0 \<and> total_cnt ds2 = total_cnt ds0"
    by (intro release_undoes_assign [of ds0 pods ds1 rels ds2]) simp_all
  then show "assigned ds2 = 0" "total_cnt ds2 = total_cnt ds0" by simp_all
next
  show "AssignPodIPv4Address pod_p s1_pool = (Inr (''10.0.0.5'', 1), s1_bound)"
    by (simp add: s1_bound_eval s1_pool_eval AssignPodIPv4Address_def assignPodIPv4AddressUnsafe_def
        pod_p_def NewPodKey_def)
  show "GetStats s1_bound = (1, 1)" by (simp add: s1_bound_eval GetStats_def)
  show "UnAssignPodIPv4Address now pod_p s1_bound =
     (Inr (''10.0.0.5'', 1), snd (UnAssignPodIPv4Address now pod_p s1_bound))"
    by (simp add: s1_bound_eval UnAssignPodIPv4Address_def)
  show "GetStats (snd (UnAssignPodIPv4Address now pod_p s1_bound)) = (1, 0)"
    by (simp add: s1_bound_eval UnAssignPodIPv4Address_def GetStats_def)
qed

text \<open>The run of scenario S1.\<close>

theorem release_undoes_assign_counters_witness:
  "counters_ok s1_pool \<and> assigned s1_pool = 0 \<and> assign_run s1_pool [pod_p] s1_bound \<and>
   release_run s1_bound [pod_p] s1_released \<and>
   NewPodKey ` set [pod_p] = NewPodKey ` set [pod_p] \<and>
   assigned s1_released = 0 \<and> total_cnt s1_released = total_cnt s1_pool"
proof -
  have c: "counters_ok s1_pool" "assigned s1_pool = 0"
    by (simp_all add: s1_pool_eval counters_ok_def counter_simps)
  have "AssignPodIPv4Address pod_p s1_pool = (Inr (''10.0.0.5'', 1), s1_bound)"
    by (simp add: s1_bound_eval s1_pool_eval AssignPodIPv4Address_def assignPodIPv4AddressUnsafe_def
        pod_p_def NewPodKey_def)
  then have a: "assign_run s1_pool [pod_p] s1_bound"
    by (rule assign_run.step) (rule assign_run.stop)
  have "UnAssignPodIPv4Address 7 pod_p s1_bound = (Inr (''10.0.0.5'', 1), s1_released)"
    by (simp add: s1_released_def s1_released_eval)
  then have r: "release_run s1_bound [pod_p] s1_released"
    by (rule release_run.step) (rule release_run.stop)
  from release_undoes_assign_counters [of s1_pool "[pod_p]" s1_bound "[pod_p]" s1_released] c a r
  show ?thesis by simp
qed

text \<open>
  C10, as the code has it. In a well-formed datastore, let an ENI hold an address \<open>a\<close>
  with assigned = true, and let no other ENI hold an address with the same IP. Assign for
  a pod key without a binding and with requested-ip \<open>a\<close> (not empty) succeeds: it returns
  \<open>a\<close> and the device number of that ENI, inserts a binding of the key to \<open>a\<close>, and
  changes nothing else, so the two assigned counters stay as they were and a pod key
  that was bound to \<open>a\<close> remains bound to it beside the new one.
\<close>

theorem assign_second_pod_same_ip:
  assumes "wf_ds ds" and "podsIP ds (NewPodKey pod) = None" and "IP pod \<noteq> []"
    and "eniIPPools ds = pre @ (k, e) # post"
    and "map_of (IPv4Addresses e) (IP pod) = Some a" and "Assigned a"
    and "list_all (\<lambda>(k', e'). map_of (IPv4Addresses e') (IP pod) = None) (pre @ post)"
  shows "AssignPodIPv4Address pod ds =
     (Inr (IP pod, DeviceNumber e),
      ds\<lparr>podsIP := (podsIP ds)(NewPodKey pod \<mapsto>
            \<lparr>pod_IP = IP pod, pod_DeviceNumber = DeviceNumber e\<rparr>)\<rparr>) \<and>
    assigned (snd (AssignPodIPv4Address pod ds)) = assigned ds \<and>
    eniIPPools (snd (AssignPodIPv4Address pod ds)) = eniIPPools ds \<and>
    (\<forall>p1 b1. podsIP ds p1 = Some b1 \<and> pod_IP b1 = IP pod \<longrightarrow>
       p1 \<noteq> NewPodKey pod \<and>
       podsIP (snd (AssignPodIPv4Address pod ds)) p1 = Some b1 \<and>
       (\<exists>b2. podsIP (snd (AssignPodIPv4Address pod ds)) (NewPodKey pod) = Some b2 \<and>
             pod_IP b2 = pod_IP b1))"
  using assign_shared [OF assms] assms(2) by auto

text \<open>A second pod asks for the address of the pod of scenario S1.\<close>

theorem assign_second_pod_same_ip_witness:
  "wf_ds s1_bound \<and> podsIP s1_bound (NewPodKey pod_q) = None \<and> IP pod_q \<noteq> [] \<and>
   eniIPPools s1_bound = [] @ hd (eniIPPools s1_bound) # [] \<and>
   map_of (IPv4Addresses (snd (hd (eniIPPools s1_bound)))) (IP pod_q) =
     Some \<lparr>Assigned = True, address = ''10.0.0.5'', unAssignedTime = zeroTime\<rparr> \<and>
   podsIP s1_bound (NewPodKey pod_p) = Some \<lparr>pod_IP = ''10.0.0.5'', pod_DeviceNumber = 1\<rparr> \<and>
   AssignPodIPv4Address pod_q s1_bound =
     (Inr (''10.0.0.5'', 1),
      s1_bound\<lparr>podsIP := (podsIP s1_bound)(NewPodKey pod_q \<mapsto>
            \<lparr>pod_IP = ''10.0.0.5'', pod_DeviceNumber = 1\<rparr>)\<rparr>) \<and>
   assigned (snd (AssignPodIPv4Address pod_q s1_bound)) = 1 \<and>
   podsIP (snd (AssignPodIPv4Address pod_q s1_bound)) (NewPodKey pod_p) =
     Some \<lparr>pod_IP = ''10.0.0.5'', pod_DeviceNumber = 1\<rparr> \<and>
   podsIP (snd (AssignPodIPv4Address pod_q s1_bound)) (NewPodKey pod_q) =
     Some \<lparr>pod_IP = ''10.0.0.5'', pod_DeviceNumber = 1\<rparr>"
proof -
  have h: "wf_ds s1_bound" "podsIP s1_bound (NewPodKey pod_q) = None" "IP pod_q \<noteq> []"
    "eniIPPools s1_bound = [] @ (''eni-a'', snd (hd (eniIPPools s1_bound))) # []"
    "map_of (IPv4Addresses (snd (hd (eniIPPools s1_bound)))) (IP pod_q) =
       Some \<lparr>Assigned = True, address = ''10.0.0.5'', unAssignedTime = zeroTime\<rparr>"
    "Assigned \<lparr>Assigned = True, address = ''10.0.0.5'', unAssignedTime = zeroTime\<rparr>"
    "list_all (\<lambda>(k', e'). map_of (IPv4Addresses e') (IP pod_q) = None) ([] @ [])"
    by (simp_all add: s1_bound_eval wf_ds_def wf_eni_def wf_addrs_def pod_q_def pod_p_def NewPodKey_def)
  have e: "DeviceNumber (snd (hd (eniIPPools s1_bound))) = 1" "IP pod_q = ''10.0.0.5''"
    "podsIP s1_bound (NewPodKey pod_p) = Some \<lparr>pod_IP = ''10.0.0.5'', pod_DeviceNumber = 1\<rparr>"
    "assigned s1_bound = 1" "hd (eniIPPools s1_bound) = (''eni-a'', snd (hd (eniIPPools s1_bound)))"
    "NewPodKey pod_p \<noteq> NewPodKey pod_q"
    by (simp_all add: s1_bound_eval pod_q_def pod_p_def NewPodKey_def)
  from assign_second_pod_same_ip [OF h] h e show ?thesis by simp
qed

text \<open>Without the condition on the other ENIs the counters can change: the datastore
  accepts one IP on two ENIs, and the loop claims the free copy that it meets first.\<close>

theorem assign_second_pod_counterexample:
  "reachable dup_pool \<and>
   list_ex (holdsAssigned ''10.0.0.5'') (map snd (eniIPPools dup_pool)) \<and>
   podsIP dup_pool (NewPodKey pod_p) = Some \<lparr>pod_IP = ''10.0.0.5'', pod_DeviceNumber = 2\<rparr> \<and>
   podsIP dup_pool (NewPodKey pod_q) = None \<and> IP pod_q = ''10.0.0.5'' \<and>
   fst (AssignPodIPv4Address pod_q dup_pool) = Inr (''10.0.0.5'', 1) \<and>
   assigned dup_pool = 1 \<and> assigned (snd (AssignPodIPv4Address pod_q dup_pool)) = 2"
  using dup_pool_reachable
  by (simp add: dup_pool_eval holdsAssigned_def pod_q_def pod_p_def NewPodKey_def
      AssignPodIPv4Address_def assignPodIPv4AddressUnsafe_def)

end
